theory Spec2Isabelle
  imports Main "HOL-Library.Char_ord" "HOL-Library.List_Lexorder" "HOL-Library.Product_Lexorder"
    "HOL-Library.Multiset"
begin

section \<open>Python values, strings and exceptions\<close>

text \<open>
  The script \<^verbatim>\<open>remote-tag-fetch.py\<close> is embedded function by function. A Python
  \<^verbatim>\<open>str\<close> is a sequence of code points; the model covers the strs whose code points
  are below U+0100, one \<^typ>\<open>char\<close> per code point (\<open>of_char c\<close> is the code point),
  and says nothing about a str with another code point. A value
  produced by \<^verbatim>\<open>yaml.safe_load\<close> is \<^verbatim>\<open>None\<close>, a bool, an int, a str, a list
  or a dict (floats, dates and binaries are not modelled); a dict is the list of its
  items in insertion order, with distinct keys.
\<close>

type_synonym pystr = string

datatype pyval =
    PNone
  | PBool bool
  | PInt int
  | PStr pystr
  | PList "pyval list"
  | PDict "(pyval \<times> pyval) list"

text \<open>The exceptions the script can meet; \<open>YAMLError\<close> carries its message.\<close>

datatype exn =
    KeyError
  | TypeError
  | ValueError
  | AttributeError
  | FileNotFoundError
  | YAMLError pystr
  | SystemExit int

section \<open>\<^verbatim>\<open>parse_version\<close>\<close>

text \<open>
  \<^verbatim>\<open>\d\<close> in a str pattern matches the decimal digits (category Nd): below U+0100
  these are \<^verbatim>\<open>0\<close> to \<^verbatim>\<open>9\<close>. \<^verbatim>\<open>str.isdigit\<close> accepts in addition the
  superscript digits U+00B2, U+00B3 and U+00B9, the only further digits below U+0100
  (beyond U+0100 there are more, such as the subscript digits).
\<close>

definition is_decimal :: "char \<Rightarrow> bool" where
  "is_decimal c = (48 \<le> (of_char c :: nat) \<and> (of_char c :: nat) \<le> 57)"

definition is_superscript :: "char \<Rightarrow> bool" where
  "is_superscript c = ((of_char c :: nat) = 178 \<or> (of_char c :: nat) = 179 \<or> (of_char c :: nat) = 185)"

definition char_isdigit :: "char \<Rightarrow> bool" where
  "char_isdigit c = (is_decimal c \<or> is_superscript c)"

definition isdigit :: "pystr \<Rightarrow> bool" where
  "isdigit s = (s \<noteq> [] \<and> list_all char_isdigit s)"

text \<open>
  \<^verbatim>\<open>re.split(r'(\d+)', version)\<close>: the text before the leftmost maximal run of
  digits, the run itself (the pattern has a capturing group), and the split of what
  follows the run; a string without a digit is returned whole.
\<close>

function re_split :: "pystr \<Rightarrow> pystr list" where
  "re_split s =
     (let rest = dropWhile (\<lambda>c. \<not> is_decimal c) s in
      if rest = [] then [s]
      else takeWhile (\<lambda>c. \<not> is_decimal c) s # takeWhile is_decimal rest
             # re_split (dropWhile is_decimal rest))"
  by pat_completeness auto
termination
proof (relation "measure length")
  show "wf (measure length)" by simp
next
  fix s rest :: pystr
  assume r: "rest = dropWhile (\<lambda>c. \<not> is_decimal c) s" and ne: "rest \<noteq> []"
  from r ne have "is_decimal (hd rest)"
    using hd_dropWhile [of "\<lambda>c. \<not> is_decimal c" s] by auto
  with ne have "length (dropWhile is_decimal rest) < length rest"
    by (cases rest) (auto simp: le_imp_less_Suc length_dropWhile_le)
  moreover have "length rest \<le> length s"
    using r by (simp add: length_dropWhile_le)
  ultimately show "(dropWhile is_decimal rest, s) \<in> measure length" by simp
qed

declare re_split.simps [simp del]

text \<open>
  \<^verbatim>\<open>int(part)\<close> for a part that passed \<^verbatim>\<open>isdigit()\<close>: the decimal value when
  every character is one of \<^verbatim>\<open>0\<close> to \<^verbatim>\<open>9\<close> (leading zeros allowed) and there
  are at most 4300 of them, the interpreter's default limit on the digits of a str that
  is converted to an int (\<^verbatim>\<open>sys.int_info.default_max_str_digits\<close>; leading zeros
  count). \<^verbatim>\<open>ValueError\<close> when a superscript digit occurs or the limit is exceeded.
\<close>

definition max_str_digits :: nat where
  "max_str_digits = 4300"

definition digit_value :: "char \<Rightarrow> nat" where
  "digit_value c = of_char c - 48"

definition int_of_digits :: "pystr \<Rightarrow> exn + int" where
  "int_of_digits s =
     (if list_all is_decimal s \<and> length s \<le> max_str_digits
      then Inr (int (foldl (\<lambda>n c. 10 * n + digit_value c) 0 s))
      else Inl ValueError)"

text \<open>An element of the key tuple: an int or a str.\<close>

datatype seg = SInt int | SStr pystr

definition part_value :: "pystr \<Rightarrow> exn + seg" where
  "part_value part =
     (if isdigit part
      then (case int_of_digits part of Inl e \<Rightarrow> Inl e | Inr n \<Rightarrow> Inr (SInt n))
      else Inr (SStr part))"

text \<open>Evaluating a generator from left to right: the first exception ends it.\<close>

fun collect :: "(exn + 'a) list \<Rightarrow> exn + 'a list" where
  "collect [] = Inr []"
| "collect (Inl e # rs) = Inl e"
| "collect (Inr v # rs) = (case collect rs of Inl e \<Rightarrow> Inl e | Inr vs \<Rightarrow> Inr (v # vs))"

definition parse_version :: "pystr \<Rightarrow> exn + seg list" where
  "parse_version version = collect (map part_value (re_split version))"

section \<open>Comparing keys\<close>

text \<open>
  Python compares strs by code point, lexicographically, and tuples at the first
  position where the elements are not equal; \<^verbatim>\<open><\<close> between an int and a str raises
  \<^verbatim>\<open>TypeError\<close>, while \<^verbatim>\<open>==\<close> between them is just false.
\<close>

fun str_lt :: "pystr \<Rightarrow> pystr \<Rightarrow> bool" where
  "str_lt [] [] = False"
| "str_lt [] (d # t) = True"
| "str_lt (c # s) [] = False"
| "str_lt (c # s) (d # t) = (if c = d then str_lt s t else (of_char c :: nat) < of_char d)"

fun seg_lt :: "seg \<Rightarrow> seg \<Rightarrow> exn + bool" where
  "seg_lt (SInt a) (SInt b) = Inr (a < b)"
| "seg_lt (SStr s) (SStr t) = Inr (str_lt s t)"
| "seg_lt (SInt a) (SStr t) = Inl TypeError"
| "seg_lt (SStr s) (SInt b) = Inl TypeError"

fun tuple_lt :: "seg list \<Rightarrow> seg list \<Rightarrow> exn + bool" where
  "tuple_lt [] [] = Inr False"
| "tuple_lt [] (y # ys) = Inr True"
| "tuple_lt (x # xs) [] = Inr False"
| "tuple_lt (x # xs) (y # ys) = (if x = y then tuple_lt xs ys else seg_lt x y)"

section \<open>\<^verbatim>\<open>sorted(tags, key=parse_version, reverse=True)\<close>\<close>

text \<open>
  The key function is the script's; \<^verbatim>\<open>re.split\<close> raises \<^verbatim>\<open>TypeError\<close> on an
  element that is not a str.
\<close>

fun key_of :: "pyval \<Rightarrow> exn + seg list" where
  "key_of (PStr s) = parse_version s"
| "key_of v = Inl TypeError"

text \<open>
  \<^verbatim>\<open>sorted\<close> computes the key of every element first, in list order. With
  \<^verbatim>\<open>reverse=True\<close> the list sort reverses the list, sorts it into ascending
  order with \<^verbatim>\<open><\<close> on the keys alone, keeping elements that are not less than one
  another in their order, and reverses the result. The ascending sort is modelled by
  insertion: an element is placed behind the elements whose key is less than its own.
\<close>

definition decorate :: "pyval list \<Rightarrow> exn + (seg list \<times> pyval) list" where
  "decorate xs =
     collect (map (\<lambda>x. case key_of x of Inl e \<Rightarrow> Inl e | Inr k \<Rightarrow> Inr (k, x)) xs)"

fun insert_sorted :: "seg list \<times> 'a \<Rightarrow> (seg list \<times> 'a) list \<Rightarrow> exn + (seg list \<times> 'a) list" where
  "insert_sorted x [] = Inr [x]"
| "insert_sorted x (y # ys) =
     (case tuple_lt (fst y) (fst x) of
        Inl e \<Rightarrow> Inl e
      | Inr lt \<Rightarrow>
          if lt then (case insert_sorted x ys of Inl e \<Rightarrow> Inl e | Inr zs \<Rightarrow> Inr (y # zs))
          else Inr (x # y # ys))"

fun stable_sort :: "(seg list \<times> 'a) list \<Rightarrow> exn + (seg list \<times> 'a) list" where
  "stable_sort [] = Inr []"
| "stable_sort (x # xs) =
     (case stable_sort xs of Inl e \<Rightarrow> Inl e | Inr ys \<Rightarrow> insert_sorted x ys)"

definition sorted_reverse :: "pyval list \<Rightarrow> exn + pyval list" where
  "sorted_reverse xs =
     (case decorate xs of
        Inl e \<Rightarrow> Inl e
      | Inr kxs \<Rightarrow>
          (case stable_sort (rev kxs) of
             Inl e \<Rightarrow> Inl e
           | Inr ys \<Rightarrow> Inr (map snd (rev ys))))"

section \<open>Operations on loaded values\<close>

text \<open>\<^verbatim>\<open>obj[key]\<close> with a str key.\<close>

fun subscript :: "pyval \<Rightarrow> pystr \<Rightarrow> exn + pyval" where
  "subscript (PDict kvs) key =
     (case map_of kvs (PStr key) of None \<Rightarrow> Inl KeyError | Some v \<Rightarrow> Inr v)"
| "subscript v key = Inl TypeError"

text \<open>\<^verbatim>\<open>obj.get(key, default)\<close>: only a dict has the method.\<close>

fun dict_get :: "pyval \<Rightarrow> pystr \<Rightarrow> pyval \<Rightarrow> exn + pyval" where
  "dict_get (PDict kvs) key dflt =
     (case map_of kvs (PStr key) of None \<Rightarrow> Inr dflt | Some v \<Rightarrow> Inr v)"
| "dict_get v key dflt = Inl AttributeError"

text \<open>Iteration: a list gives its elements, a dict its keys, a str its characters.\<close>

fun py_iter :: "pyval \<Rightarrow> exn + pyval list" where
  "py_iter (PList xs) = Inr xs"
| "py_iter (PDict kvs) = Inr (map fst kvs)"
| "py_iter (PStr s) = Inr (map (\<lambda>c. PStr [c]) s)"
| "py_iter v = Inl TypeError"

fun truthy :: "pyval \<Rightarrow> bool" where
  "truthy PNone = False"
| "truthy (PBool b) = b"
| "truthy (PInt n) = (n \<noteq> 0)"
| "truthy (PStr s) = (s \<noteq> [])"
| "truthy (PList xs) = (xs \<noteq> [])"
| "truthy (PDict kvs) = (kvs \<noteq> [])"

text \<open>
  \<^verbatim>\<open>xs[:stop]\<close>: a negative stop counts from the end, \<^verbatim>\<open>None\<close> means the whole
  list, a bool is the int 0 or 1, and any other stop raises \<^verbatim>\<open>TypeError\<close>.
\<close>

fun slice_to :: "'a list \<Rightarrow> pyval \<Rightarrow> exn + 'a list" where
  "slice_to xs (PInt n) =
     Inr (if n < 0 then take (nat (int (length xs) + n)) xs else take (nat n) xs)"
| "slice_to xs PNone = Inr xs"
| "slice_to xs (PBool b) = Inr (take (if b then 1 else 0) xs)"
| "slice_to xs v = Inl TypeError"

text \<open>\<^verbatim>\<open>str(n)\<close> of an int, in decimal.\<close>

fun str_nat :: "nat \<Rightarrow> pystr" where
  "str_nat n =
     (if n < 10 then [''0123456789'' ! n]
      else str_nat (n div 10) @ [''0123456789'' ! (n mod 10)])"

declare str_nat.simps [simp del]

definition str_int :: "int \<Rightarrow> pystr" where
  "str_int n = (if n < 0 then ''-'' @ str_nat (nat (- n)) else str_nat (nat n))"

section \<open>The host: processes, files, the YAML library\<close>

text \<open>
  What the script does not compute itself is a parameter: \<open>run\<close> is
  \<^verbatim>\<open>subprocess.run\<close> on an argument vector (\<open>None\<close> when the executable cannot be
  started, which raises \<^verbatim>\<open>FileNotFoundError\<close>), \<open>open_config\<close> reads
  \<^verbatim>\<open>config.yaml\<close>, \<open>safe_load\<close> is \<^verbatim>\<open>yaml.safe_load\<close>, and \<open>repr\<close> is the
  text Python formats a list or a dict to.
\<close>

record proc =
  returncode :: int
  stdout :: pystr
  stderr :: pystr

record world =
  run :: "pystr list \<Rightarrow> proc option"
  open_config :: "exn + pystr"
  safe_load :: "pystr \<Rightarrow> exn + pyval"
  repr :: "pyval \<Rightarrow> pystr"

text \<open>What a run does, in order: processes started, files opened, calls of \<^verbatim>\<open>print\<close>.\<close>

datatype event = Run "pystr list" | Open pystr | Print pystr

text \<open>Formatting a value inside an f-string.\<close>

fun py_str :: "world \<Rightarrow> pyval \<Rightarrow> pystr" where
  "py_str w (PStr s) = s"
| "py_str w (PInt n) = str_int n"
| "py_str w (PBool b) = (if b then ''True'' else ''False'')"
| "py_str w PNone = ''None''"
| "py_str w v = repr w v"

section \<open>\<^verbatim>\<open>check_command_exists\<close>, \<^verbatim>\<open>fetch_tags\<close>, \<^verbatim>\<open>main\<close>\<close>

definition check_command_exists :: "world \<Rightarrow> pystr \<Rightarrow> event list \<times> (exn + bool)" where
  "check_command_exists w command =
     ([Run [''which'', command]],
      case run w [''which'', command] of
        None \<Rightarrow> Inl FileNotFoundError
      | Some result \<Rightarrow> Inr (returncode result = 0))"

definition skopeo_argv :: "world \<Rightarrow> pyval \<Rightarrow> pyval \<Rightarrow> pystr list" where
  "skopeo_argv w registry img =
     [''skopeo'', ''list-tags'', ''--no-creds'',
      ''docker://'' @ py_str w registry @ ''/'' @ py_str w img]"

definition fetching_line :: "world \<Rightarrow> pyval \<Rightarrow> pyval \<Rightarrow> pystr" where
  "fetching_line w registry img =
     ''Fetching tags for '' @ py_str w img @ '' from '' @ py_str w registry @ ''...''"

definition error_line :: "world \<Rightarrow> pyval \<Rightarrow> pyval \<Rightarrow> pystr \<Rightarrow> pystr" where
  "error_line w registry img err =
     ''Error fetching tags for '' @ py_str w img @ '' from '' @ py_str w registry @ '': '' @ err"

definition no_tags_line :: "world \<Rightarrow> pyval \<Rightarrow> pyval \<Rightarrow> pystr" where
  "no_tags_line w registry img =
     ''No tags found for '' @ py_str w img @ '' in '' @ py_str w registry @ ''.''"

definition latest_line :: "world \<Rightarrow> pyval \<Rightarrow> pyval \<Rightarrow> pystr" where
  "latest_line w max_tags img =
     ''Latest '' @ py_str w max_tags @ '' tags for '' @ py_str w img @ '':''"

text \<open>
  \<^verbatim>\<open>fetch_tags\<close>. With \<^verbatim>\<open>check=True\<close> a non-zero exit status raises
  \<^verbatim>\<open>CalledProcessError\<close>, the one exception the \<^verbatim>\<open>try\<close> catches; every other
  exception leaves the function. The result is the events so far and either the
  exception that left the function or its normal return.
\<close>

definition fetch_tags :: "world \<Rightarrow> pyval \<Rightarrow> pyval \<Rightarrow> pyval \<Rightarrow> event list \<times> (exn + unit)" where
  "fetch_tags w registry img max_tags =
     (let start = [Print (fetching_line w registry img), Run (skopeo_argv w registry img)] in
      case run w (skopeo_argv w registry img) of
        None \<Rightarrow> (start, Inl FileNotFoundError)
      | Some result \<Rightarrow>
          if returncode result \<noteq> 0
          then (start @ [Print (error_line w registry img (stderr result))], Inr ())
          else
            (case safe_load w (stdout result) of
               Inl e \<Rightarrow> (start, Inl e)
             | Inr response \<Rightarrow>
                 (case subscript response ''Tags'' of
                    Inl e \<Rightarrow> (start, Inl e)
                  | Inr tags \<Rightarrow>
                      if \<not> truthy tags
                      then (start @ [Print (no_tags_line w registry img)], Inr ())
                      else
                        (case (case py_iter tags of Inl e \<Rightarrow> Inl e | Inr xs \<Rightarrow> sorted_reverse xs) of
                           Inl e \<Rightarrow> (start, Inl e)
                         | Inr sorted_tags \<Rightarrow>
                             (case slice_to sorted_tags max_tags of
                                Inl e \<Rightarrow> (start @ [Print (latest_line w max_tags img)], Inl e)
                              | Inr shown \<Rightarrow>
                                  (start @ [Print (latest_line w max_tags img)]
                                     @ map (\<lambda>tag. Print (py_str w tag)) shown @ [Print []],
                                   Inr ()))))))"

text \<open>The two loops of \<^verbatim>\<open>main\<close>; an exception ends them.\<close>

fun image_loop :: "world \<Rightarrow> pyval \<Rightarrow> pyval \<Rightarrow> pyval list \<Rightarrow> event list \<times> (exn + unit)" where
  "image_loop w registry max_tags [] = ([], Inr ())"
| "image_loop w registry max_tags (img # images) =
     (case fetch_tags w registry img max_tags of
        (t, Inl e) \<Rightarrow> (t, Inl e)
      | (t, Inr u) \<Rightarrow>
          (case image_loop w registry max_tags images of (t', r) \<Rightarrow> (t @ t', r)))"

fun registry_loop :: "world \<Rightarrow> pyval \<Rightarrow> pyval list \<Rightarrow> event list \<times> (exn + unit)" where
  "registry_loop w max_tags [] = ([], Inr ())"
| "registry_loop w max_tags (registry_config # rest) =
     (case subscript registry_config ''registry'' of
        Inl e \<Rightarrow> ([], Inl e)
      | Inr registry \<Rightarrow>
          (case (case subscript registry_config ''images'' of Inl e \<Rightarrow> Inl e | Inr v \<Rightarrow> py_iter v) of
             Inl e \<Rightarrow> ([], Inl e)
           | Inr images \<Rightarrow>
               (case image_loop w registry max_tags images of
                  (t, Inl e) \<Rightarrow> (t, Inl e)
                | (t, Inr u) \<Rightarrow>
                    (case registry_loop w max_tags rest of (t', r) \<Rightarrow> (t @ t', r)))))"

text \<open>
  The \<^verbatim>\<open>try\<close> of \<^verbatim>\<open>main\<close> covers opening and loading the file; it catches
  \<^verbatim>\<open>FileNotFoundError\<close> and \<^verbatim>\<open>yaml.YAMLError\<close>.
\<close>

definition load_config :: "world \<Rightarrow> exn + pyval" where
  "load_config w = (case open_config w of Inl e \<Rightarrow> Inl e | Inr text \<Rightarrow> safe_load w text)"

definition not_installed_line :: pystr where
  "not_installed_line = ''Skopeo is not installed. Please install Skopeo to use this script.''"

fun config_failure :: "exn \<Rightarrow> event list \<times> (exn + unit)" where
  "config_failure FileNotFoundError = ([Print ''config.yaml file not found.''], Inl (SystemExit 1))"
| "config_failure (YAMLError m) = ([Print (''Error parsing YAML file: '' @ m)], Inl (SystemExit 1))"
| "config_failure e = ([], Inl e)"

definition run_config :: "world \<Rightarrow> pyval \<Rightarrow> event list \<times> (exn + unit)" where
  "run_config w config =
     (case dict_get config ''max'' (PInt 3) of
        Inl e \<Rightarrow> ([], Inl e)
      | Inr max_tags \<Rightarrow>
          (case (case subscript config ''registries'' of Inl e \<Rightarrow> Inl e | Inr v \<Rightarrow> py_iter v) of
             Inl e \<Rightarrow> ([], Inl e)
           | Inr registries \<Rightarrow> registry_loop w max_tags registries))"

definition main :: "world \<Rightarrow> event list \<times> (exn + unit)" where
  "main w =
     (case check_command_exists w ''skopeo'' of
        (t, Inl e) \<Rightarrow> (t, Inl e)
      | (t, Inr found) \<Rightarrow>
          if \<not> found then (t @ [Print not_installed_line], Inl (SystemExit 1))
          else
            (case load_config w of
               Inl e \<Rightarrow> (case config_failure e of (t', r) \<Rightarrow> (t @ [Open ''config.yaml''] @ t', r))
             | Inr config \<Rightarrow>
                 (case run_config w config of (t', r) \<Rightarrow> (t @ [Open ''config.yaml''] @ t', r))))"

text \<open>
  The exit status of the interpreter: 0 when \<^verbatim>\<open>main\<close> returns, the argument of
  \<^verbatim>\<open>sys.exit\<close>, and 1 for an exception nobody caught.
\<close>

fun exit_code :: "exn + unit \<Rightarrow> int" where
  "exit_code (Inr u) = 0"
| "exit_code (Inl (SystemExit n)) = n"
| "exit_code (Inl e) = 1"

section \<open>Notions used in the properties\<close>

text \<open>
  The parts that \<open>re_split\<close> returns alternate between text without a digit (first,
  third, ...) and non-empty runs of digits; the keys alternate between strs (without
  a digit) and non-negative ints. The flag says which kind comes first.
\<close>

fun parts_shape :: "bool \<Rightarrow> pystr list \<Rightarrow> bool" where
  "parts_shape b [] = True"
| "parts_shape b (p # ps) =
     ((if b then list_all (\<lambda>c. \<not> is_decimal c) p else p \<noteq> [] \<and> list_all is_decimal p)
      \<and> parts_shape (\<not> b) ps)"

fun key_shape :: "bool \<Rightarrow> seg list \<Rightarrow> bool" where
  "key_shape b [] = True"
| "key_shape b (SStr t # k) = (b \<and> list_all (\<lambda>c. \<not> is_decimal c) t \<and> key_shape False k)"
| "key_shape b (SInt n # k) = (\<not> b \<and> 0 \<le> n \<and> key_shape True k)"

text \<open>
  A key as a value of a linearly ordered type: ints before strs, each kind in its own
  order, lists lexicographically. On keys of the same shape this is Python's order.
\<close>

definition enc :: "seg \<Rightarrow> bool \<times> int \<times> pystr" where
  "enc x = (case x of SInt n \<Rightarrow> (False, n, []) | SStr t \<Rightarrow> (True, 0, t))"

definition rank :: "seg list \<Rightarrow> (bool \<times> int \<times> pystr) list" where
  "rank k = map enc k"

text \<open>The key of an element that has one.\<close>

definition the_key :: "pyval \<Rightarrow> seg list" where
  "the_key x = (case key_of x of Inl e \<Rightarrow> [] | Inr k \<Rightarrow> k)"

text \<open>
  The strs and the ints of a key, each in order, the ints of a tag's key, and the
  lexicographic order of lists of ints.
\<close>

fun strs :: "seg list \<Rightarrow> pystr list" where
  "strs [] = []"
| "strs (SStr t # k) = t # strs k"
| "strs (SInt n # k) = strs k"

fun nums :: "seg list \<Rightarrow> int list" where
  "nums [] = []"
| "nums (SStr t # k) = nums k"
| "nums (SInt n # k) = n # nums k"

definition numbers :: "pystr \<Rightarrow> int list" where
  "numbers t = (case parse_version t of Inl e \<Rightarrow> [] | Inr k \<Rightarrow> nums k)"

fun version_lt :: "int list \<Rightarrow> int list \<Rightarrow> bool" where
  "version_lt [] [] = False"
| "version_lt [] (n # ns) = True"
| "version_lt (m # ms) [] = False"
| "version_lt (m # ms) (n # ns) = (m < n \<or> (m = n \<and> version_lt ms ns))"

text \<open>
  The (registry, image) pairs of a configuration in the order of the file, when every
  entry has its \<^verbatim>\<open>registry\<close> and an iterable \<^verbatim>\<open>images\<close>; and the two loops of
  \<^verbatim>\<open>main\<close> as one loop over such pairs.
\<close>

definition entry_pairs :: "pyval \<Rightarrow> (pyval \<times> pyval) list option" where
  "entry_pairs registry_config =
     (case subscript registry_config ''registry'' of
        Inl e \<Rightarrow> None
      | Inr registry \<Rightarrow>
          (case subscript registry_config ''images'' of
             Inl e \<Rightarrow> None
           | Inr v \<Rightarrow> (case py_iter v of Inl e \<Rightarrow> None | Inr images \<Rightarrow> Some (map (Pair registry) images))))"

fun all_pairs :: "pyval list \<Rightarrow> (pyval \<times> pyval) list option" where
  "all_pairs [] = Some []"
| "all_pairs (registry_config # rest) =
     (case entry_pairs registry_config of
        None \<Rightarrow> None
      | Some ps \<Rightarrow> (case all_pairs rest of None \<Rightarrow> None | Some qs \<Rightarrow> Some (ps @ qs)))"

definition config_pairs :: "pyval \<Rightarrow> (pyval \<times> pyval) list option" where
  "config_pairs config =
     (case subscript config ''registries'' of
        Inl e \<Rightarrow> None
      | Inr v \<Rightarrow> (case py_iter v of Inl e \<Rightarrow> None | Inr registries \<Rightarrow> all_pairs registries))"

fun pair_loop :: "world \<Rightarrow> pyval \<Rightarrow> (pyval \<times> pyval) list \<Rightarrow> event list \<times> (exn + unit)" where
  "pair_loop w max_tags [] = ([], Inr ())"
| "pair_loop w max_tags ((registry, img) # rest) =
     (case fetch_tags w registry img max_tags of
        (t, Inl e) \<Rightarrow> (t, Inl e)
      | (t, Inr u) \<Rightarrow> (case pair_loop w max_tags rest of (t', r) \<Rightarrow> (t @ t', r)))"

text \<open>
  A response that \<^verbatim>\<open>fetch_tags\<close> handles, for a given \<^verbatim>\<open>max\<close>: the tool exited with
  a non-zero status, or it exited with status zero and its output loads to a mapping
  whose \<^verbatim>\<open>Tags\<close> is empty, or can be iterated and has only elements for which
  \<open>parse_version\<close> returns a key, with a \<^verbatim>\<open>max\<close> that the slice accepts (an int,
  \<^verbatim>\<open>None\<close> or a bool). The events that start a fetch.
\<close>

definition has_key :: "pyval \<Rightarrow> bool" where
  "has_key x = (case key_of x of Inl e \<Rightarrow> False | Inr k \<Rightarrow> True)"

fun slice_stop :: "pyval \<Rightarrow> bool" where
  "slice_stop (PInt n) = True"
| "slice_stop PNone = True"
| "slice_stop (PBool b) = True"
| "slice_stop v = False"

definition good_response :: "world \<Rightarrow> pyval \<Rightarrow> proc \<Rightarrow> bool" where
  "good_response w max_tags result =
     (returncode result \<noteq> 0 \<or>
      (case safe_load w (stdout result) of
         Inl e \<Rightarrow> False
       | Inr response \<Rightarrow>
           (case subscript response ''Tags'' of
              Inl e \<Rightarrow> False
            | Inr tags \<Rightarrow>
                \<not> truthy tags \<or>
                (case py_iter tags of
                   Inl e \<Rightarrow> False
                 | Inr xs \<Rightarrow> list_all has_key xs \<and> slice_stop max_tags))))"


section \<open>Worlds for the examples\<close>

text \<open>A world for the examples: the tool is installed and lists three tags for every image.\<close>

definition three_tags :: pyval where
  "three_tags = PDict [(PStr ''Tags'', PList [PStr ''1.2.0'', PStr ''1.10.0'', PStr ''1.9.0''])]"



text \<open>
  Worlds in which a precondition of \<^verbatim>\<open>main\<close> fails: \<^verbatim>\<open>which skopeo\<close> exits with
  status 1; the tool is there and \<^verbatim>\<open>config.yaml\<close> is not; the file is there and is not
  YAML.
\<close>

definition no_tool_world :: world where
  "no_tool_world =
     \<lparr> run = (\<lambda>argv. Some \<lparr> returncode = 1, stdout = [], stderr = [] \<rparr>),
       open_config = Inr ''registries: []'',
       safe_load = (\<lambda>text. Inr (PDict [(PStr ''registries'', PList [])])),
       repr = (\<lambda>v. []) \<rparr>"

definition no_config_world :: world where
  "no_config_world =
     \<lparr> run = (\<lambda>argv. Some \<lparr> returncode = 0, stdout = [], stderr = [] \<rparr>),
       open_config = Inl FileNotFoundError,
       safe_load = (\<lambda>text. Inr PNone),
       repr = (\<lambda>v. []) \<rparr>"

definition bad_config_world :: world where
  "bad_config_world =
     \<lparr> run = (\<lambda>argv. Some \<lparr> returncode = 0, stdout = [], stderr = [] \<rparr>),
       open_config = Inr ''registries: ['',
       safe_load = (\<lambda>text. Inl (YAMLError ''while parsing a flow sequence'')),
       repr = (\<lambda>v. []) \<rparr>"

text \<open>
  A world with two registries and three images: \<^verbatim>\<open>org/a\<close> and \<^verbatim>\<open>org/b\<close> on
  \<^verbatim>\<open>quay.io\<close>, then \<^verbatim>\<open>org/c\<close> on \<^verbatim>\<open>ghcr.io\<close>. The tool is installed and lists three
  tags for \<^verbatim>\<open>org/a\<close> and \<^verbatim>\<open>org/c\<close>; what it does for \<^verbatim>\<open>org/b\<close>, and what
  \<^verbatim>\<open>yaml.safe_load\<close> makes of that output, are the parameters.
\<close>

definition two_registries :: pyval where
  "two_registries =
     PDict [(PStr ''registries'',
       PList [PDict [(PStr ''registry'', PStr ''quay.io''),
                     (PStr ''images'', PList [PStr ''org/a'', PStr ''org/b''])],
              PDict [(PStr ''registry'', PStr ''ghcr.io''),
                     (PStr ''images'', PList [PStr ''org/c''])]])]"

definition registry_world :: "proc \<Rightarrow> exn + pyval \<Rightarrow> world" where
  "registry_world result_b loaded_b =
     \<lparr> run = (\<lambda>argv.
          if argv = [''skopeo'', ''list-tags'', ''--no-creds'', ''docker://quay.io/org/b'']
          then Some result_b
          else Some \<lparr> returncode = 0, stdout = ''Tags: [1.2.0, 1.10.0, 1.9.0]'', stderr = [] \<rparr>),
       open_config = Inr ''registries: [{registry: quay.io, images: [org/a, org/b]}, {registry: ghcr.io, images: [org/c]}]'',
       safe_load = (\<lambda>text.
          if text = ''Tags: [1.2.0, 1.10.0, 1.9.0]'' then Inr three_tags
          else if text = ''registries: [{registry: quay.io, images: [org/a, org/b]}, {registry: ghcr.io, images: [org/c]}]'' then Inr two_registries
          else loaded_b),
       repr = (\<lambda>v. []) \<rparr>"

definition listing :: "pystr \<Rightarrow> pystr \<Rightarrow> event list" where
  "listing registry img =
     [Print (''Fetching tags for '' @ img @ '' from '' @ registry @ ''...''),
      Run [''skopeo'', ''list-tags'', ''--no-creds'', ''docker://'' @ registry @ ''/'' @ img],
      Print (''Latest 3 tags for '' @ img @ '':''),
      Print ''1.10.0'', Print ''1.9.0'', Print ''1.2.0'', Print []]"


text \<open>
  Other things the tool does for \<^verbatim>\<open>org/b\<close> in the examples: it exits with status zero
  and prints an empty list of tags, or a mapping without \<^verbatim>\<open>Tags\<close>.
\<close>

definition empty_b :: proc where
  "empty_b = \<lparr> returncode = 0, stdout = ''Tags: []'', stderr = [] \<rparr>"

definition absent_b :: proc where
  "absent_b = \<lparr> returncode = 0, stdout = ''Repository: quay.io/org/b'', stderr = [] \<rparr>"


section \<open>The shape of the keys\<close>

lemma re_split_plain:
  "dropWhile (\<lambda>c. \<not> is_decimal c) s = [] \<Longrightarrow> re_split s = [s]"
  by (subst re_split.simps) simp

lemma re_split_run:
  "dropWhile (\<lambda>c. \<not> is_decimal c) s \<noteq> [] \<Longrightarrow>
   re_split s = takeWhile (\<lambda>c. \<not> is_decimal c) s
     # takeWhile is_decimal (dropWhile (\<lambda>c. \<not> is_decimal c) s)
     # re_split (dropWhile is_decimal (dropWhile (\<lambda>c. \<not> is_decimal c) s))"
  by (subst re_split.simps) (simp add: Let_def)

lemma re_split_shape: "parts_shape True (re_split s)"
proof (induction s rule: re_split.induct)
  case (1 s)
  let ?rest = "dropWhile (\<lambda>c. \<not> is_decimal c) s"
  show ?case
  proof (cases "?rest = []")
    case True
    then have "list_all (\<lambda>c. \<not> is_decimal c) s"
      by (simp add: dropWhile_eq_Nil_conv list_all_iff)
    then show ?thesis by (simp only: re_split_plain [OF True]) simp
  next
    case False
    then have hd: "is_decimal (hd ?rest)"
      using hd_dropWhile [of "\<lambda>c. \<not> is_decimal c" s] by auto
    have a: "list_all (\<lambda>c. \<not> is_decimal c) (takeWhile (\<lambda>c. \<not> is_decimal c) s)"
      by (auto simp: list_all_iff dest: set_takeWhileD)
    have b: "list_all is_decimal (takeWhile is_decimal ?rest)"
      by (auto simp: list_all_iff dest: set_takeWhileD)
    have c: "takeWhile is_decimal ?rest \<noteq> []"
      using False hd by (cases ?rest) auto
    have ih: "parts_shape True (re_split (dropWhile is_decimal ?rest))"
      using 1 [OF refl False] .
    show ?thesis
      by (simp only: re_split_run [OF False]) (simp add: a b c ih)
  qed
qed

lemma collect_Cons_Inr:
  "collect (r # rs) = Inr k \<Longrightarrow> \<exists>v k'. r = Inr v \<and> collect rs = Inr k' \<and> k = v # k'"
  by (cases r; cases "collect rs") simp_all

lemma part_value_plain:
  assumes "list_all (\<lambda>c. \<not> is_decimal c) p" and "part_value p = Inr v"
  shows "v = SStr p"
proof (cases "isdigit p")
  case True
  then have "p \<noteq> []" by (simp add: isdigit_def)
  with assms(1) have "\<not> list_all is_decimal p" by (cases p) simp_all
  with True assms(2) show ?thesis by (simp add: part_value_def int_of_digits_def)
next
  case False
  with assms(2) show ?thesis by (simp add: part_value_def)
qed

lemma part_value_run:
  assumes "p \<noteq> []" and "list_all is_decimal p" and "part_value p = Inr v"
  shows "\<exists>n. v = SInt n \<and> 0 \<le> n"
proof -
  from assms(1,2) have "isdigit p" by (simp add: isdigit_def char_isdigit_def list_all_iff)
  with assms(3) show ?thesis
    by (auto simp: part_value_def int_of_digits_def split: if_splits)
qed

lemma collect_shape:
  "parts_shape b ps \<Longrightarrow> collect (map part_value ps) = Inr k \<Longrightarrow> key_shape b k"
proof (induction ps arbitrary: b k)
  case Nil
  then show ?case by simp
next
  case (Cons p ps)
  from Cons.prems(2) obtain v k' where v: "part_value p = Inr v"
    and k': "collect (map part_value ps) = Inr k'" and k: "k = v # k'"
    using collect_Cons_Inr [of "part_value p" "map part_value ps" k] by auto
  have rest: "key_shape (\<not> b) k'" using Cons.IH [of "\<not> b" k'] Cons.prems(1) k' by simp
  show ?case
  proof (cases b)
    case True
    with Cons.prems(1) have nd: "list_all (\<lambda>c. \<not> is_decimal c) p" by simp
    have "v = SStr p" using part_value_plain [OF nd v] .
    with True nd rest k show ?thesis by simp
  next
    case False
    with Cons.prems(1) have d: "p \<noteq> []" "list_all is_decimal p" by simp_all
    from part_value_run [OF d v] have "\<exists>n. v = SInt n \<and> 0 \<le> n" .
    with False rest k show ?thesis by auto
  qed
qed

lemma parse_version_shape: "parse_version s = Inr k \<Longrightarrow> key_shape True k"
  unfolding parse_version_def using collect_shape [OF re_split_shape] by blast

section \<open>The order of the keys\<close>

lemma str_lt_less: "str_lt s t = (s < t)"
  by (induction s t rule: str_lt.induct) (simp_all add: less_char_def)

lemma enc_inj: "(enc x = enc y) = (x = y)"
  by (cases x; cases y) (simp_all add: enc_def)

lemma map_enc_inj: "(map enc k = map enc k') = (k = k')"
proof (induction k arbitrary: k')
  case Nil
  then show ?case by auto
next
  case (Cons a k)
  then show ?case by (cases k') (simp_all add: enc_inj)
qed

lemma enc_less_int: "(enc (SInt a) < enc (SInt b)) = (a < b)"
  by (simp add: enc_def less_prod_def)

lemma enc_less_str: "(enc (SStr s) < enc (SStr t)) = (s < t)"
  by (simp add: enc_def less_prod_def)

lemma key_shape_Cons_same:
  "key_shape b (x # xs) \<Longrightarrow> key_shape b (y # ys) \<Longrightarrow>
   key_shape (\<not> b) xs \<and> key_shape (\<not> b) ys \<and>
   ((\<exists>m n. x = SInt m \<and> y = SInt n) \<or> (\<exists>s t. x = SStr s \<and> y = SStr t))"
  by (cases x; cases y) simp_all

lemma tuple_lt_enc:
  "key_shape b k1 \<Longrightarrow> key_shape b k2 \<Longrightarrow> tuple_lt k1 k2 = Inr (map enc k1 < map enc k2)"
proof (induction k1 k2 arbitrary: b rule: tuple_lt.induct)
  case (4 x xs y ys)
  from key_shape_Cons_same [OF 4(2,3)]
  have tl: "key_shape (\<not> b) xs" "key_shape (\<not> b) ys"
    and kinds: "(\<exists>m n. x = SInt m \<and> y = SInt n) \<or> (\<exists>s t. x = SStr s \<and> y = SStr t)"
    by simp_all
  show ?case
  proof (cases "x = y")
    case True
    then have "tuple_lt (x # xs) (y # ys) = Inr (map enc xs < map enc ys)"
      using 4(1) [OF True tl] by simp
    with True show ?thesis by simp
  next
    case False
    then have ne: "enc x \<noteq> enc y" by (simp add: enc_inj)
    from kinds have "seg_lt x y = Inr (enc x < enc y)"
      by (auto simp: enc_less_int enc_less_str str_lt_less)
    with False ne show ?thesis by simp
  qed
qed simp_all

section \<open>The sort\<close>

lemma insert_sorted_insort:
  "key_shape True (fst x) \<Longrightarrow> \<forall>y\<in>set ys. key_shape True (fst y) \<Longrightarrow>
   insert_sorted x ys = Inr (insort_key (\<lambda>p. rank (fst p)) x ys)"
proof (induction ys)
  case Nil
  then show ?case by simp
next
  case (Cons y ys)
  have lt: "tuple_lt (fst y) (fst x) = Inr (rank (fst y) < rank (fst x))"
    unfolding rank_def using tuple_lt_enc [of True "fst y" "fst x"] Cons.prems by simp
  have ih: "insert_sorted x ys = Inr (insort_key (\<lambda>p. rank (fst p)) x ys)"
    using Cons by simp
  show ?case by (simp add: lt ih not_less [symmetric])
qed

lemma stable_sort_sort_key:
  "\<forall>x\<in>set xs. key_shape True (fst x) \<Longrightarrow>
   stable_sort xs = Inr (sort_key (\<lambda>p. rank (fst p)) xs)"
proof (induction xs)
  case Nil
  then show ?case by simp
next
  case (Cons x xs)
  then have ih: "stable_sort xs = Inr (sort_key (\<lambda>p. rank (fst p)) xs)" by simp
  have "insert_sorted x (sort_key (\<lambda>p. rank (fst p)) xs)
      = Inr (insort_key (\<lambda>p. rank (fst p)) x (sort_key (\<lambda>p. rank (fst p)) xs))"
    using Cons.prems by (intro insert_sorted_insort) simp_all
  with ih show ?case by simp
qed

lemma insort_key_map:
  "insort_key f (g x) (map g ys) = map g (insort_key (\<lambda>y. f (g y)) x ys)"
  by (induction ys) simp_all

lemma sort_key_map: "sort_key f (map g xs) = map g (sort_key (\<lambda>y. f (g y)) xs)"
  by (induction xs) (simp_all add: insort_key_map)

lemma key_of_shape: "key_of x = Inr k \<Longrightarrow> key_shape True k"
  by (cases x) (simp_all add: parse_version_shape)

lemma decorate_Nil: "decorate [] = Inr []"
  by (simp add: decorate_def)

lemma decorate_Cons:
  "decorate (x # xs) =
     (case key_of x of Inl e \<Rightarrow> Inl e
      | Inr k \<Rightarrow> (case decorate xs of Inl e \<Rightarrow> Inl e | Inr kxs \<Rightarrow> Inr ((k, x) # kxs)))"
  by (cases "key_of x") (simp_all add: decorate_def)

lemma decorate_Inr:
  "decorate xs = Inr kxs \<Longrightarrow>
   kxs = map (\<lambda>x. (the_key x, x)) xs \<and> (\<forall>x\<in>set xs. key_of x = Inr (the_key x))"
proof (induction xs arbitrary: kxs)
  case Nil
  then show ?case by (simp add: decorate_Nil)
next
  case (Cons x xs)
  from Cons.prems obtain k kxs' where k: "key_of x = Inr k" and d: "decorate xs = Inr kxs'"
    and e: "kxs = (k, x) # kxs'"
    by (auto simp: decorate_Cons split: sum.splits)
  from k have "the_key x = k" by (simp add: the_key_def)
  with Cons.IH [OF d] k e show ?case by simp
qed

lemma decorate_total:
  "\<forall>x\<in>set xs. key_of x = Inr (the_key x) \<Longrightarrow> decorate xs = Inr (map (\<lambda>x. (the_key x, x)) xs)"
  by (induction xs) (simp_all add: decorate_Nil decorate_Cons)

lemma sorted_reverse_eq:
  assumes "\<forall>x\<in>set xs. key_of x = Inr (the_key x)"
  shows "sorted_reverse xs = Inr (rev (sort_key (\<lambda>x. rank (the_key x)) (rev xs)))"
proof -
  let ?g = "\<lambda>x. (the_key x, x)"
  have d: "decorate xs = Inr (map ?g xs)" using decorate_total [OF assms] .
  have sh: "\<forall>p\<in>set (map ?g (rev xs)). key_shape True (fst p)"
    using assms key_of_shape by auto
  have "stable_sort (rev (map ?g xs)) = Inr (sort_key (\<lambda>p. rank (fst p)) (map ?g (rev xs)))"
    using stable_sort_sort_key [OF sh] by (simp add: rev_map)
  also have "sort_key (\<lambda>p. rank (fst p)) (map ?g (rev xs))
      = map ?g (sort_key (\<lambda>x. rank (the_key x)) (rev xs))"
    by (simp add: sort_key_map)
  finally have s: "stable_sort (rev (map ?g xs))
      = Inr (map ?g (sort_key (\<lambda>x. rank (the_key x)) (rev xs)))" .
  show ?thesis
    by (simp add: sorted_reverse_def d s rev_map [symmetric] o_def)
qed

lemma sorted_reverse_Inr:
  assumes "sorted_reverse xs = Inr ys"
  shows "(\<forall>x\<in>set xs. key_of x = Inr (the_key x))
    \<and> ys = rev (sort_key (\<lambda>x. rank (the_key x)) (rev xs))"
proof -
  from assms obtain kxs where "decorate xs = Inr kxs"
    by (auto simp: sorted_reverse_def split: sum.splits)
  then have k: "\<forall>x\<in>set xs. key_of x = Inr (the_key x)" using decorate_Inr by blast
  with assms sorted_reverse_eq [OF k] show ?thesis by simp
qed

lemma sorted_reverse_error:
  "sorted_reverse xs = Inl e \<Longrightarrow> \<exists>x\<in>set xs. key_of x = Inl e"
proof -
  assume a: "sorted_reverse xs = Inl e"
  have "decorate xs = Inl e"
  proof (cases "decorate xs")
    case (Inl e')
    with a show ?thesis by (simp add: sorted_reverse_def)
  next
    case (Inr kxs)
    then have "\<forall>x\<in>set xs. key_of x = Inr (the_key x)" using decorate_Inr by blast
    from sorted_reverse_eq [OF this] a show ?thesis by simp
  qed
  then show ?thesis
    by (induction xs) (auto simp: decorate_Nil decorate_Cons split: sum.splits)
qed

lemma rank_inj: "(rank k = rank k') = (k = k')"
  by (simp add: rank_def map_enc_inj)

lemma key_filter_rank:
  assumes "\<forall>x\<in>set xs. key_of x = Inr (the_key x)" and "set l \<subseteq> set xs"
  shows "filter (\<lambda>x. key_of x = Inr k) l = filter (\<lambda>x. rank (the_key x) = rank k) l"
proof (rule filter_cong [OF refl])
  fix x assume "x \<in> set l"
  with assms have "key_of x = Inr (the_key x)" by blast
  then show "(key_of x = Inr k) = (rank (the_key x) = rank k)" by (simp add: rank_inj)
qed

section \<open>Keys by position, tags that have a key, keys with the same strs\<close>

lemma key_shape_nth:
  "key_shape b k \<Longrightarrow> i < length k \<Longrightarrow>
   (if even i = b
    then (\<exists>t. k ! i = SStr t \<and> (\<forall>c\<in>set t. \<not> is_decimal c))
    else (\<exists>n. k ! i = SInt n \<and> 0 \<le> n))"
proof (induction k arbitrary: b i)
  case Nil
  then show ?case by simp
next
  case (Cons x k)
  show ?case
  proof (cases i)
    case 0
    with Cons.prems show ?thesis by (cases x) (simp_all add: list_all_iff)
  next
    case (Suc j)
    from Cons.prems(1) have "key_shape (\<not> b) k" by (cases x) simp_all
    from Cons.IH [OF this, of j] Cons.prems(2) Suc show ?thesis by auto
  qed
qed

lemma parse_version_error: "parse_version s = Inl e \<Longrightarrow> e = ValueError"
proof -
  assume a: "parse_version s = Inl e"
  have "\<And>rs. collect (map part_value rs) = Inl e \<Longrightarrow> e = ValueError"
  proof -
    fix rs show "collect (map part_value rs) = Inl e \<Longrightarrow> e = ValueError"
    proof (induction rs)
      case Nil
      then show ?case by simp
    next
      case (Cons p rs)
      show ?case
      proof (cases "part_value p")
        case (Inl e')
        then have "e' = ValueError"
          by (auto simp: part_value_def int_of_digits_def split: if_splits)
        with Inl Cons.prems show ?thesis by simp
      next
        case (Inr v)
        with Cons show ?thesis by (cases "collect (map part_value rs)") simp_all
      qed
    qed
  qed
  with a show ?thesis by (simp add: parse_version_def)
qed

lemma tuple_lt_keys:
  assumes "parse_version s = Inr k" and "parse_version s' = Inr k'"
  shows "tuple_lt k k' = Inr (rank k < rank k')"
  unfolding rank_def
  using tuple_lt_enc [OF parse_version_shape [OF assms(1)] parse_version_shape [OF assms(2)]] .

lemma rank_Nil_less: "(rank [] < rank (y # ys)) = True" "(rank (x # xs) < rank []) = False"
  by (simp_all add: rank_def)

lemma rank_Cons_less:
  "(rank (x # xs) < rank (y # ys)) = (enc x < enc y \<or> (x = y \<and> rank xs < rank ys))"
  by (auto simp: rank_def enc_inj)

lemma rank_less_nums:
  "key_shape b k1 \<Longrightarrow> key_shape b k2 \<Longrightarrow> strs k1 = strs k2 \<Longrightarrow>
   (rank k1 < rank k2) = version_lt (nums k1) (nums k2)"
proof (induction k1 k2 arbitrary: b rule: tuple_lt.induct)
  case 1
  then show ?case by (simp add: rank_def)
next
  case (2 y ys)
  then show ?case by (cases y) (simp_all add: rank_Nil_less)
next
  case (3 x xs)
  then show ?case by (cases x) (simp_all add: rank_Nil_less)
next
  case (4 x xs y ys)
  from key_shape_Cons_same [OF 4(2,3)]
  have tl: "key_shape (\<not> b) xs" "key_shape (\<not> b) ys"
    and kinds: "(\<exists>m n. x = SInt m \<and> y = SInt n) \<or> (\<exists>s t. x = SStr s \<and> y = SStr t)"
    by simp_all
  from kinds show ?case
  proof
    assume "\<exists>m n. x = SInt m \<and> y = SInt n"
    then obtain m n where x: "x = SInt m" and y: "y = SInt n" by blast
    with 4(4) have s: "strs xs = strs ys" by simp
    have ih: "x = y \<Longrightarrow> (rank xs < rank ys) = version_lt (nums xs) (nums ys)"
      using 4(1) [OF _ tl s] by simp
    show ?thesis using ih by (auto simp: rank_Cons_less x y enc_less_int)
  next
    assume "\<exists>s t. x = SStr s \<and> y = SStr t"
    then obtain s t where x: "x = SStr s" and y: "y = SStr t" by blast
    with 4(4) have st: "s = t" and s: "strs xs = strs ys" by simp_all
    have ih: "(rank xs < rank ys) = version_lt (nums xs) (nums ys)"
      using 4(1) [OF _ tl s] x y st by simp
    show ?thesis using ih by (simp add: rank_Cons_less x y st)
  qed
qed

lemma the_key_PStr: "parse_version t = Inr k \<Longrightarrow> the_key (PStr t) = k"
  by (simp add: the_key_def)

section \<open>The branches of \<^verbatim>\<open>fetch_tags\<close> and the loops of \<^verbatim>\<open>main\<close>\<close>


lemma str_nat_digit: "n < 10 \<Longrightarrow> str_nat n = [''0123456789'' ! n]"
  by (subst str_nat.simps) simp



lemma main_not_found:
  "run w [''which'', ''skopeo''] = Some result \<Longrightarrow> returncode result \<noteq> 0 \<Longrightarrow>
   main w = ([Run [''which'', ''skopeo''], Print not_installed_line], Inl (SystemExit 1))"
  by (simp add: main_def check_command_exists_def)

lemma main_no_which:
  "run w [''which'', ''skopeo''] = None \<Longrightarrow>
   main w = ([Run [''which'', ''skopeo'']], Inl FileNotFoundError)"
  by (simp add: main_def check_command_exists_def)

lemma main_found:
  "run w [''which'', ''skopeo''] = Some result \<Longrightarrow> returncode result = 0 \<Longrightarrow>
   main w =
     (case load_config w of
        Inl e \<Rightarrow> ([Run [''which'', ''skopeo''], Open ''config.yaml''] @ fst (config_failure e),
                  snd (config_failure e))
      | Inr config \<Rightarrow> ([Run [''which'', ''skopeo''], Open ''config.yaml''] @ fst (run_config w config),
                  snd (run_config w config)))"
  by (simp add: main_def check_command_exists_def split: sum.splits prod.splits)

lemma pair_loop_append:
  "pair_loop w max_tags (ps @ qs) =
     (case pair_loop w max_tags ps of
        (t, Inl e) \<Rightarrow> (t, Inl e)
      | (t, Inr u) \<Rightarrow> (case pair_loop w max_tags qs of (t', r) \<Rightarrow> (t @ t', r)))"
proof (induction ps)
  case Nil
  then show ?case by (simp split: prod.splits)
next
  case (Cons p ps)
  obtain registry img where p: "p = (registry, img)" by (cases p)
  show ?case
    by (simp add: p Cons split: prod.splits sum.splits)
qed

lemma image_loop_pairs:
  "image_loop w registry max_tags images = pair_loop w max_tags (map (Pair registry) images)"
  by (induction images) (simp_all split: prod.splits sum.splits)

lemma registry_loop_pairs:
  "all_pairs registries = Some pairs \<Longrightarrow>
   registry_loop w max_tags registries = pair_loop w max_tags pairs"
proof (induction registries arbitrary: pairs)
  case Nil
  then show ?case by simp
next
  case (Cons rc rest)
  from Cons.prems obtain ps qs where ps: "entry_pairs rc = Some ps"
    and qs: "all_pairs rest = Some qs" and pairs: "pairs = ps @ qs"
    by (auto split: option.splits)
  from ps obtain registry v images where r: "subscript rc ''registry'' = Inr registry"
    and v: "subscript rc ''images'' = Inr v" and i: "py_iter v = Inr images"
    and m: "ps = map (Pair registry) images"
    by (auto simp: entry_pairs_def split: sum.splits)
  have ih: "registry_loop w max_tags rest = pair_loop w max_tags qs"
    using Cons.IH [OF qs] .
  show ?case
    by (simp add: r v i ih pairs m image_loop_pairs pair_loop_append
        split: prod.splits sum.splits)
qed

lemma run_config_pairs:
  "dict_get config ''max'' (PInt 3) = Inr max_tags \<Longrightarrow> config_pairs config = Some pairs \<Longrightarrow>
   run_config w config = pair_loop w max_tags pairs"
  by (auto simp: run_config_def config_pairs_def registry_loop_pairs split: sum.splits)

lemma main_pairs:
  assumes "run w [''which'', ''skopeo''] = Some found" and "returncode found = 0"
    and "load_config w = Inr config"
    and "dict_get config ''max'' (PInt 3) = Inr max_tags"
    and "config_pairs config = Some pairs"
  shows "main w =
     ([Run [''which'', ''skopeo''], Open ''config.yaml''] @ fst (pair_loop w max_tags pairs),
      snd (pair_loop w max_tags pairs))"
  by (simp add: main_found [OF assms(1,2)] assms(3) run_config_pairs [OF assms(4,5)])

lemma pair_loop_returns:
  "\<forall>(registry, img)\<in>set ps. snd (fetch_tags w registry img max_tags) = Inr () \<Longrightarrow>
   snd (pair_loop w max_tags ps) = Inr ()"
proof (induction ps)
  case Nil
  then show ?case by simp
next
  case (Cons p ps)
  obtain registry img where p: "p = (registry, img)" by (cases p)
  from Cons.prems p have "snd (fetch_tags w registry img max_tags) = Inr ()" by simp
  then obtain t where f: "fetch_tags w registry img max_tags = (t, Inr ())"
    by (cases "fetch_tags w registry img max_tags") simp
  from Cons have "snd (pair_loop w max_tags ps) = Inr ()" by simp
  then obtain t' where ih: "pair_loop w max_tags ps = (t', Inr ())"
    by (cases "pair_loop w max_tags ps") simp
  show ?case by (simp add: p f ih)
qed

lemma pair_loop_split:
  assumes "\<forall>(r, i)\<in>set pre. snd (fetch_tags w r i max_tags) = Inr ()"
    and "fetch_tags w registry img max_tags = (t, Inr ())"
  shows "pair_loop w max_tags (pre @ (registry, img) # post) =
     (fst (pair_loop w max_tags pre) @ t @ fst (pair_loop w max_tags post),
      snd (pair_loop w max_tags post))"
proof -
  have "snd (pair_loop w max_tags pre) = Inr ()" using pair_loop_returns [OF assms(1)] .
  then obtain t0 where pre: "pair_loop w max_tags pre = (t0, Inr ())"
    by (cases "pair_loop w max_tags pre") simp
  obtain t1 r1 where post: "pair_loop w max_tags post = (t1, r1)"
    by (cases "pair_loop w max_tags post")
  show ?thesis by (simp add: pair_loop_append pre post assms(2))
qed

lemma sorted_three:
  "sorted_reverse [PStr ''1.2.0'', PStr ''1.10.0'', PStr ''1.9.0'']
     = Inr [PStr ''1.10.0'', PStr ''1.9.0'', PStr ''1.2.0'']"
  by code_simp

lemma registry_world_a:
  "fetch_tags (registry_world result_b loaded_b) (PStr ''quay.io'') (PStr ''org/a'') (PInt 3)
     = (listing ''quay.io'' ''org/a'', Inr ())"
  by (simp add: fetch_tags_def registry_world_def skopeo_argv_def three_tags_def sorted_three
      fetching_line_def latest_line_def str_int_def str_nat_digit listing_def)

lemma registry_world_c:
  "fetch_tags (registry_world result_b loaded_b) (PStr ''ghcr.io'') (PStr ''org/c'') (PInt 3)
     = (listing ''ghcr.io'' ''org/c'', Inr ())"
  by (simp add: fetch_tags_def registry_world_def skopeo_argv_def three_tags_def sorted_three
      fetching_line_def latest_line_def str_int_def str_nat_digit listing_def)

lemma registry_world_tool:
  "run (registry_world result_b loaded_b) [''which'', ''skopeo'']
     = Some \<lparr> returncode = 0, stdout = ''Tags: [1.2.0, 1.10.0, 1.9.0]'', stderr = [] \<rparr>"
  by (simp add: registry_world_def)

lemma registry_world_b:
  "run (registry_world result_b loaded_b)
       (skopeo_argv (registry_world result_b loaded_b) (PStr ''quay.io'') (PStr ''org/b''))
     = Some result_b"
  by (simp add: registry_world_def skopeo_argv_def)

lemma registry_world_config:
  "load_config (registry_world result_b loaded_b) = Inr two_registries"
  by (simp add: load_config_def registry_world_def)

lemma two_registries_max: "dict_get two_registries ''max'' (PInt 3) = Inr (PInt 3)"
  by (simp add: two_registries_def)

lemma two_registries_pairs:
  "config_pairs two_registries
     = Some ([(PStr ''quay.io'', PStr ''org/a'')] @ (PStr ''quay.io'', PStr ''org/b'')
              # [(PStr ''ghcr.io'', PStr ''org/c'')])"
  by (simp add: two_registries_def config_pairs_def entry_pairs_def)

lemma registry_world_main:
  "main (registry_world result_b loaded_b) =
     ([Run [''which'', ''skopeo''], Open ''config.yaml'']
        @ fst (pair_loop (registry_world result_b loaded_b) (PInt 3)
            ([(PStr ''quay.io'', PStr ''org/a'')] @ (PStr ''quay.io'', PStr ''org/b'')
              # [(PStr ''ghcr.io'', PStr ''org/c'')])),
      snd (pair_loop (registry_world result_b loaded_b) (PInt 3)
            ([(PStr ''quay.io'', PStr ''org/a'')] @ (PStr ''quay.io'', PStr ''org/b'')
              # [(PStr ''ghcr.io'', PStr ''org/c'')])))"
  by (rule main_pairs [OF registry_world_tool _ registry_world_config two_registries_max
        two_registries_pairs]) simp


lemma fetch_tags_no_tags:
  "run w (skopeo_argv w registry img) = Some result \<Longrightarrow> returncode result = 0 \<Longrightarrow>
   safe_load w (stdout result) = Inr response \<Longrightarrow> subscript response ''Tags'' = Inr tags \<Longrightarrow>
   \<not> truthy tags \<Longrightarrow>
   fetch_tags w registry img max_tags =
     ([Print (fetching_line w registry img), Run (skopeo_argv w registry img),
       Print (no_tags_line w registry img)], Inr ())"
  by (simp add: fetch_tags_def)

lemma fetch_tags_no_key:
  "run w (skopeo_argv w registry img) = Some result \<Longrightarrow> returncode result = 0 \<Longrightarrow>
   safe_load w (stdout result) = Inr response \<Longrightarrow> subscript response ''Tags'' = Inl e \<Longrightarrow>
   fetch_tags w registry img max_tags =
     ([Print (fetching_line w registry img), Run (skopeo_argv w registry img)], Inl e)"
  by (simp add: fetch_tags_def)

lemma fetch_tags_not_loaded:
  "run w (skopeo_argv w registry img) = Some result \<Longrightarrow> returncode result = 0 \<Longrightarrow>
   safe_load w (stdout result) = Inl e \<Longrightarrow>
   fetch_tags w registry img max_tags =
     ([Print (fetching_line w registry img), Run (skopeo_argv w registry img)], Inl e)"
  by (simp add: fetch_tags_def)

lemma main_split:
  assumes "run w [''which'', ''skopeo''] = Some found" and "returncode found = 0"
    and "load_config w = Inr config"
    and "dict_get config ''max'' (PInt 3) = Inr max_tags"
    and "config_pairs config = Some (pre @ (registry, img) # post)"
    and "\<forall>(r, i)\<in>set pre. snd (fetch_tags w r i max_tags) = Inr ()"
    and "fetch_tags w registry img max_tags = (t, Inr ())"
  shows "main w =
     ([Run [''which'', ''skopeo''], Open ''config.yaml''] @ fst (pair_loop w max_tags pre) @ t
        @ fst (pair_loop w max_tags post),
      snd (pair_loop w max_tags post))"
  by (simp add: main_pairs [OF assms(1-5)] pair_loop_split [OF assms(6,7)])

lemma has_key_the_key: "has_key x = (key_of x = Inr (the_key x))"
  by (cases "key_of x") (simp_all add: has_key_def the_key_def)

lemma slice_stop_returns: "slice_stop max_tags = (\<exists>shown. slice_to ys max_tags = Inr shown)"
  by (cases max_tags) simp_all

lemma sorted_reverse_returns: "(\<exists>ys. sorted_reverse xs = Inr ys) = list_all has_key xs"
proof
  assume "\<exists>ys. sorted_reverse xs = Inr ys"
  then obtain ys where "sorted_reverse xs = Inr ys" ..
  from sorted_reverse_Inr [OF this] show "list_all has_key xs"
    by (simp add: list_all_iff has_key_the_key)
next
  assume "list_all has_key xs"
  then have "\<forall>x\<in>set xs. key_of x = Inr (the_key x)"
    by (simp add: list_all_iff has_key_the_key)
  from sorted_reverse_eq [OF this] show "\<exists>ys. sorted_reverse xs = Inr ys" by simp
qed


lemma fetch_tags_returns:
  assumes "snd (fetch_tags w registry img max_tags) = Inr ()"
  shows "\<exists>result. run w (skopeo_argv w registry img) = Some result
    \<and> good_response w max_tags result"
proof (cases "run w (skopeo_argv w registry img)")
  case None
  with assms show ?thesis by (simp add: fetch_tags_def)
next
  case (Some result)
  have "good_response w max_tags result"
  proof (rule ccontr)
    assume n: "\<not> good_response w max_tags result"
    then have z: "returncode result = 0" by (simp add: good_response_def)
    show False
    proof (cases "safe_load w (stdout result)")
      case (Inl e)
      from fetch_tags_not_loaded [OF Some z Inl] assms show False by simp
    next
      case (Inr response)
      show False
      proof (cases "subscript response ''Tags''")
        case (Inl e)
        from fetch_tags_no_key [OF Some z Inr Inl] assms show False by simp
      next
        case tags: (Inr tags)
        from n z Inr tags have t: "truthy tags"
          and b: "\<not> (case py_iter tags of Inl e \<Rightarrow> False
              | Inr xs \<Rightarrow> list_all has_key xs \<and> slice_stop max_tags)"
          by (simp_all add: good_response_def)
        show False
        proof (cases "py_iter tags")
          case (Inl e)
          with Some z Inr tags t assms show False by (simp add: fetch_tags_def)
        next
          case xs: (Inr xs)
          show False
          proof (cases "sorted_reverse xs")
            case (Inl e)
            with Some z Inr tags t xs assms show False by (simp add: fetch_tags_def)
          next
            case ys: (Inr ys)
            then have k: "list_all has_key xs" using sorted_reverse_returns [of xs] by blast
            with b xs have "\<not> slice_stop max_tags" by simp
            then have "\<exists>e. slice_to ys max_tags = Inl e"
              using slice_stop_returns [of max_tags ys] by (cases "slice_to ys max_tags") auto
            then obtain e where "slice_to ys max_tags = Inl e" ..
            with Some z Inr tags t xs ys assms show False by (simp add: fetch_tags_def)
          qed
        qed
      qed
    qed
  qed
  with Some show ?thesis by simp
qed






section \<open>The properties\<close>

text \<open>
  C8. For every list of tags on which the sort returns, and every key, the tags with that
  key stand in the sorted list in the order they had in the input: the descending sort is
  stable, and the reversal does not reverse tags with equal keys. The tags \<^verbatim>\<open>1\<close> and
  \<^verbatim>\<open>01\<close> have the same key \<^verbatim>\<open>('', 1, '')\<close> and keep their order, whichever comes
  first.
\<close>

theorem sorted_reverse_stable:
  "(sorted_reverse xs = Inr ys \<longrightarrow>
      filter (\<lambda>x. key_of x = Inr k) ys = filter (\<lambda>x. key_of x = Inr k) xs)
   \<and> parse_version ''1'' = Inr [SStr [], SInt 1, SStr []]
   \<and> parse_version ''01'' = Inr [SStr [], SInt 1, SStr []]
   \<and> sorted_reverse [PStr ''1'', PStr ''01''] = Inr [PStr ''1'', PStr ''01'']
   \<and> sorted_reverse [PStr ''01'', PStr ''1''] = Inr [PStr ''01'', PStr ''1'']"
proof -
  have general: "filter (\<lambda>x. key_of x = Inr k) ys = filter (\<lambda>x. key_of x = Inr k) xs"
    if a: "sorted_reverse xs = Inr ys"
  proof -
    let ?h = "\<lambda>x. rank (the_key x)"
    from sorted_reverse_Inr [OF a]
    have keys: "\<forall>x\<in>set xs. key_of x = Inr (the_key x)"
      and ys: "ys = rev (sort_key ?h (rev xs))" by simp_all
    have "set ys \<subseteq> set xs" by (simp add: ys)
    then have "filter (\<lambda>x. key_of x = Inr k) ys = filter (\<lambda>x. ?h x = rank k) ys"
      by (rule key_filter_rank [OF keys])
    also have "\<dots> = rev (filter (\<lambda>x. ?h x = rank k) (sort_key ?h (rev xs)))"
      by (simp add: ys rev_filter)
    also have "\<dots> = rev (filter (\<lambda>x. ?h x = rank k) (rev xs))"
      by (simp only: sort_key_stable)
    also have "\<dots> = filter (\<lambda>x. ?h x = rank k) xs"
      by (simp add: rev_filter)
    also have "\<dots> = filter (\<lambda>x. key_of x = Inr k) xs"
      by (rule key_filter_rank [OF keys subset_refl, symmetric])
    finally show ?thesis .
  qed
  have e1: "parse_version ''1'' = Inr [SStr [], SInt 1, SStr []]" by code_simp
  have e2: "parse_version ''01'' = Inr [SStr [], SInt 1, SStr []]" by code_simp
  have e3: "sorted_reverse [PStr ''1'', PStr ''01''] = Inr [PStr ''1'', PStr ''01'']" by code_simp
  have e4: "sorted_reverse [PStr ''01'', PStr ''1''] = Inr [PStr ''01'', PStr ''1'']" by code_simp
  from general e1 e2 e3 e4 show ?thesis by blast
qed

theorem sorted_reverse_stable_witness:
  "sorted_reverse [PStr ''1'', PStr ''2'', PStr ''01''] = Inr [PStr ''2'', PStr ''1'', PStr ''01'']
   \<and> filter (\<lambda>x. key_of x = Inr [SStr [], SInt 1, SStr []]) [PStr ''2'', PStr ''1'', PStr ''01'']
     = filter (\<lambda>x. key_of x = Inr [SStr [], SInt 1, SStr []]) [PStr ''1'', PStr ''2'', PStr ''01'']"
proof -
  have h: "sorted_reverse [PStr ''1'', PStr ''2'', PStr ''01''] = Inr [PStr ''2'', PStr ''1'', PStr ''01'']"
    by code_simp
  from sorted_reverse_stable [of "[PStr ''1'', PStr ''2'', PStr ''01'']"
      "[PStr ''2'', PStr ''1'', PStr ''01'']" "[SStr [], SInt 1, SStr []]"] h
  show ?thesis by blast
qed

text \<open>
  C9. Whenever \<open>parse_version\<close> produces a key, the key alternates by position: every even
  index holds a str without a digit (possibly empty) and every odd index holds an int, not
  negative. So two keys never meet an int and a str at the same index: comparing the keys
  of two tags never raises, one of the keys is less than the other or they are equal, and
  the sort of a list of tag strings never ends in \<^verbatim>\<open>TypeError\<close>.
\<close>

theorem keys_alternate:
  "(parse_version s = Inr k \<longrightarrow>
      (\<forall>i<length k.
         if even i then (\<exists>t. k ! i = SStr t \<and> (\<forall>c\<in>set t. \<not> is_decimal c))
         else (\<exists>n. k ! i = SInt n \<and> 0 \<le> n)))
   \<and> (parse_version s = Inr k \<and> parse_version s' = Inr k' \<longrightarrow>
      (\<exists>b. tuple_lt k k' = Inr b)
      \<and> (tuple_lt k k' = Inr True \<or> k = k' \<or> tuple_lt k' k = Inr True))
   \<and> sorted_reverse (map PStr ts) \<noteq> Inl TypeError"
proof (intro conjI impI)
  assume a: "parse_version s = Inr k"
  show "\<forall>i<length k.
         if even i then (\<exists>t. k ! i = SStr t \<and> (\<forall>c\<in>set t. \<not> is_decimal c))
         else (\<exists>n. k ! i = SInt n \<and> 0 \<le> n)"
    using key_shape_nth [OF parse_version_shape [OF a]] by simp
next
  assume a: "parse_version s = Inr k \<and> parse_version s' = Inr k'"
  then show "\<exists>b. tuple_lt k k' = Inr b" using tuple_lt_keys by blast
next
  assume a: "parse_version s = Inr k \<and> parse_version s' = Inr k'"
  then have 1: "tuple_lt k k' = Inr (rank k < rank k')"
    and 2: "tuple_lt k' k = Inr (rank k' < rank k)"
    using tuple_lt_keys by blast+
  have "rank k < rank k' \<or> rank k = rank k' \<or> rank k' < rank k" by (rule less_linear)
  with 1 2 show "tuple_lt k k' = Inr True \<or> k = k' \<or> tuple_lt k' k = Inr True"
    by (auto simp: rank_inj)
next
  show "sorted_reverse (map PStr ts) \<noteq> Inl TypeError"
  proof
    assume "sorted_reverse (map PStr ts) = Inl TypeError"
    from sorted_reverse_error [OF this] obtain t where "parse_version t = Inl TypeError"
      by auto
    from parse_version_error [OF this] show False by simp
  qed
qed

theorem keys_alternate_witness:
  "parse_version ''v10'' = Inr [SStr ''v'', SInt 10, SStr []]
   \<and> parse_version ''v2'' = Inr [SStr ''v'', SInt 2, SStr []]
   \<and> (\<exists>t. [SStr ''v'', SInt 10, SStr []] ! 0 = SStr t \<and> (\<forall>c\<in>set t. \<not> is_decimal c))
   \<and> (\<exists>n. [SStr ''v'', SInt 10, SStr []] ! 1 = SInt n \<and> 0 \<le> n)
   \<and> (\<exists>t. [SStr ''v'', SInt 10, SStr []] ! 2 = SStr t \<and> (\<forall>c\<in>set t. \<not> is_decimal c))
   \<and> (\<exists>b. tuple_lt [SStr ''v'', SInt 10, SStr []] [SStr ''v'', SInt 2, SStr []] = Inr b)"
proof -
  let ?k = "[SStr ''v'', SInt 10, SStr []]"
  have h1: "parse_version ''v10'' = Inr ?k" by code_simp
  have h2: "parse_version ''v2'' = Inr [SStr ''v'', SInt 2, SStr []]" by code_simp
  note a = keys_alternate [of "''v10''" ?k "''v2''" "[SStr ''v'', SInt 2, SStr []]" "[]"]
  note shape = a [THEN conjunct1, THEN mp, OF h1]
  note cmp = a [THEN conjunct2, THEN conjunct1, THEN mp, OF conjI [OF h1 h2], THEN conjunct1]
  from shape have s0: "\<exists>t. ?k ! 0 = SStr t \<and> (\<forall>c\<in>set t. \<not> is_decimal c)"
    by (drule_tac x = 0 in spec) simp
  from shape have s1: "\<exists>n. ?k ! 1 = SInt n \<and> 0 \<le> n"
    by (drule_tac x = 1 in spec) simp
  from shape have s2: "\<exists>t. ?k ! 2 = SStr t \<and> (\<forall>c\<in>set t. \<not> is_decimal c)"
    by (drule_tac x = 2 in spec) simp
  from h1 h2 s0 s1 s2 cmp show ?thesis by blast
qed

text \<open>
  C1. For every list of tags whose keys have the same strs (the same non-numeric parts),
  the sort returns the tags rearranged so that no tag is followed by one whose ints (the
  values of the runs of digits) are greater in lexicographic order: the order is that of
  the integer values. The tags \<^verbatim>\<open>1.2.0\<close>, \<^verbatim>\<open>1.10.0\<close>, \<^verbatim>\<open>1.9.0\<close> come out as
  \<^verbatim>\<open>1.10.0\<close>, \<^verbatim>\<open>1.9.0\<close>, \<^verbatim>\<open>1.2.0\<close>, and \<^verbatim>\<open>v10\<close> is put before \<^verbatim>\<open>v2\<close>
  although as text \<^verbatim>\<open>v10\<close> is less than \<^verbatim>\<open>v2\<close>.
\<close>

theorem numeric_order:
  "((\<forall>t\<in>set ts. \<exists>k. parse_version t = Inr k \<and> strs k = P) \<longrightarrow>
      (\<exists>ys. sorted_reverse (map PStr ts) = Inr (map PStr ys) \<and> mset ys = mset ts
         \<and> sorted_wrt (\<lambda>a b. \<not> version_lt (numbers a) (numbers b)) ys))
   \<and> sorted_reverse [PStr ''1.2.0'', PStr ''1.10.0'', PStr ''1.9.0'']
       = Inr [PStr ''1.10.0'', PStr ''1.9.0'', PStr ''1.2.0'']
   \<and> sorted_reverse [PStr ''v2'', PStr ''v10''] = Inr [PStr ''v10'', PStr ''v2'']
   \<and> sorted_reverse [PStr ''v10'', PStr ''v2''] = Inr [PStr ''v10'', PStr ''v2'']
   \<and> str_lt ''v10'' ''v2''"
proof -
  have general: "\<exists>ys. sorted_reverse (map PStr ts) = Inr (map PStr ys) \<and> mset ys = mset ts
         \<and> sorted_wrt (\<lambda>a b. \<not> version_lt (numbers a) (numbers b)) ys"
    if a: "\<forall>t\<in>set ts. \<exists>k. parse_version t = Inr k \<and> strs k = P"
  proof -
    let ?h = "\<lambda>t. rank (the_key (PStr t))"
    let ?ys = "rev (sort_key ?h (rev ts))"
    have keys: "\<forall>x\<in>set (map PStr ts). key_of x = Inr (the_key x)"
      using a by (auto simp: the_key_def)
    have "sorted_reverse (map PStr ts)
        = Inr (rev (sort_key (\<lambda>x. rank (the_key x)) (map PStr (rev ts))))"
      using sorted_reverse_eq [OF keys] by (simp add: rev_map)
    then have 1: "sorted_reverse (map PStr ts) = Inr (map PStr ?ys)"
      by (simp add: sort_key_map rev_map)
    have 2: "mset ?ys = mset ts" by simp
    have "sorted (map ?h (sort_key ?h (rev ts)))" by (rule sorted_sort_key)
    then have "sorted_wrt (\<lambda>a b. ?h a \<le> ?h b) (sort_key ?h (rev ts))"
      by (simp add: sorted_map)
    then have desc: "sorted_wrt (\<lambda>a b. ?h b \<le> ?h a) ?ys"
      by (simp add: sorted_wrt_rev)
    have 3: "sorted_wrt (\<lambda>a b. \<not> version_lt (numbers a) (numbers b)) ?ys"
    proof (rule sorted_wrt_mono_rel [OF _ desc])
      fix u v assume "u \<in> set ?ys" "v \<in> set ?ys" and le: "?h v \<le> ?h u"
      then have "u \<in> set ts" "v \<in> set ts" by simp_all
      with a obtain ku kv where ku: "parse_version u = Inr ku" "strs ku = P"
        and kv: "parse_version v = Inr kv" "strs kv = P" by blast
      have "(rank ku < rank kv) = version_lt (nums ku) (nums kv)"
        using rank_less_nums [OF parse_version_shape [OF ku(1)] parse_version_shape [OF kv(1)]]
          ku(2) kv(2) by simp
      moreover have "\<not> rank ku < rank kv"
        using le by (simp add: the_key_PStr [OF ku(1)] the_key_PStr [OF kv(1)] not_less)
      ultimately show "\<not> version_lt (numbers u) (numbers v)"
        by (simp add: numbers_def ku(1) kv(1))
    qed
    from 1 2 3 show ?thesis by blast
  qed
  have e1: "sorted_reverse [PStr ''1.2.0'', PStr ''1.10.0'', PStr ''1.9.0'']
       = Inr [PStr ''1.10.0'', PStr ''1.9.0'', PStr ''1.2.0'']" by code_simp
  have e2: "sorted_reverse [PStr ''v2'', PStr ''v10''] = Inr [PStr ''v10'', PStr ''v2'']"
    by code_simp
  have e3: "sorted_reverse [PStr ''v10'', PStr ''v2''] = Inr [PStr ''v10'', PStr ''v2'']"
    by code_simp
  have e4: "str_lt ''v10'' ''v2''" by simp
  from general e1 e2 e3 e4 show ?thesis by blast
qed

theorem numeric_order_witness:
  "parse_version ''v2'' = Inr [SStr ''v'', SInt 2, SStr []]
   \<and> parse_version ''v10'' = Inr [SStr ''v'', SInt 10, SStr []]
   \<and> strs [SStr ''v'', SInt 2, SStr []] = [''v'', []]
   \<and> strs [SStr ''v'', SInt 10, SStr []] = [''v'', []]
   \<and> (\<exists>ys. sorted_reverse (map PStr [''v2'', ''v10'']) = Inr (map PStr ys)
         \<and> mset ys = mset [''v2'', ''v10'']
         \<and> sorted_wrt (\<lambda>a b. \<not> version_lt (numbers a) (numbers b)) ys)"
proof -
  have h1: "parse_version ''v2'' = Inr [SStr ''v'', SInt 2, SStr []]" by code_simp
  have h2: "parse_version ''v10'' = Inr [SStr ''v'', SInt 10, SStr []]" by code_simp
  have h3: "strs [SStr ''v'', SInt 2, SStr []] = [''v'', []]" by simp
  have h4: "strs [SStr ''v'', SInt 10, SStr []] = [''v'', []]" by simp
  have h: "\<forall>t\<in>set [''v2'', ''v10'']. \<exists>k. parse_version t = Inr k \<and> strs k = [''v'', []]"
    using h1 h2 by simp
  from numeric_order [of "[''v2'', ''v10'']" "[''v'', []]", THEN conjunct1, THEN mp, OF h]
    h1 h2 h3 h4
  show ?thesis by blast
qed






text \<open>
  C5. When \<^verbatim>\<open>which skopeo\<close> exits with a non-zero status, \<^verbatim>\<open>main\<close> starts that one
  process, prints the fixed line and exits with code 1: the file is not opened and no
  fetch is started. In every run the first event is the start of \<^verbatim>\<open>which skopeo\<close>, and the
  configuration file is opened only in runs where that process exited with status 0.
\<close>

theorem tool_check_first:
  "(run w [''which'', ''skopeo''] = Some result \<and> returncode result \<noteq> 0 \<longrightarrow>
      main w =
        ([Run [''which'', ''skopeo''],
          Print ''Skopeo is not installed. Please install Skopeo to use this script.''],
         Inl (SystemExit 1))
      \<and> exit_code (snd (main w)) = 1)
   \<and> (\<exists>t. fst (main w) = Run [''which'', ''skopeo''] # t)
   \<and> (Open f \<in> set (fst (main w)) \<longrightarrow>
        (\<exists>found. run w [''which'', ''skopeo''] = Some found \<and> returncode found = 0))"
proof (intro conjI impI)
  assume a: "run w [''which'', ''skopeo''] = Some result \<and> returncode result \<noteq> 0"
  then have m: "main w = ([Run [''which'', ''skopeo''], Print not_installed_line], Inl (SystemExit 1))"
    using main_not_found by blast
  then show "main w =
        ([Run [''which'', ''skopeo''],
          Print ''Skopeo is not installed. Please install Skopeo to use this script.''],
         Inl (SystemExit 1))"
    by (simp add: not_installed_line_def)
  from m show "exit_code (snd (main w)) = 1" by simp
next
  show "\<exists>t. fst (main w) = Run [''which'', ''skopeo''] # t"
  proof (cases "run w [''which'', ''skopeo'']")
    case None
    then show ?thesis by (simp add: main_no_which)
  next
    case (Some result)
    show ?thesis
    proof (cases "returncode result = 0")
      case True
      show ?thesis by (simp add: main_found [OF Some True] split: sum.splits)
    next
      case False
      show ?thesis by (simp add: main_not_found [OF Some False])
    qed
  qed
next
  assume o: "Open f \<in> set (fst (main w))"
  show "\<exists>found. run w [''which'', ''skopeo''] = Some found \<and> returncode found = 0"
  proof (cases "run w [''which'', ''skopeo'']")
    case None
    with o show ?thesis by (simp add: main_no_which)
  next
    case (Some result)
    show ?thesis
    proof (cases "returncode result = 0")
      case True
      with Some show ?thesis by simp
    next
      case False
      with o show ?thesis by (simp add: main_not_found [OF Some False])
    qed
  qed
qed

theorem tool_check_first_witness:
  "run no_tool_world [''which'', ''skopeo''] = Some \<lparr> returncode = 1, stdout = [], stderr = [] \<rparr>
   \<and> returncode \<lparr> returncode = 1, stdout = [], stderr = [] \<rparr> \<noteq> 0
   \<and> main no_tool_world =
        ([Run [''which'', ''skopeo''],
          Print ''Skopeo is not installed. Please install Skopeo to use this script.''],
         Inl (SystemExit 1))
   \<and> exit_code (snd (main no_tool_world)) = 1
   \<and> Open ''config.yaml'' \<in> set (fst (main no_config_world))
   \<and> (\<exists>found. run no_config_world [''which'', ''skopeo''] = Some found \<and> returncode found = 0)"
proof -
  have h1: "run no_tool_world [''which'', ''skopeo'']
      = Some \<lparr> returncode = 1, stdout = [], stderr = [] \<rparr>"
    by (simp add: no_tool_world_def)
  have h2: "returncode \<lparr> returncode = 1, stdout = [], stderr = [] \<rparr> \<noteq> 0" by simp
  have r: "run no_config_world [''which'', ''skopeo'']
      = Some \<lparr> returncode = 0, stdout = [], stderr = [] \<rparr>"
    by (simp add: no_config_world_def)
  have z: "returncode \<lparr> returncode = 0, stdout = [], stderr = [] \<rparr> = 0" by simp
  have l: "load_config no_config_world = Inl FileNotFoundError"
    by (simp add: load_config_def no_config_world_def)
  have "main no_config_world =
      ([Run [''which'', ''skopeo''], Open ''config.yaml'', Print ''config.yaml file not found.''],
       Inl (SystemExit 1))"
    by (simp add: main_found [OF r z] l)
  then have h3: "Open ''config.yaml'' \<in> set (fst (main no_config_world))" by simp
  note a = tool_check_first [of no_tool_world "\<lparr> returncode = 1, stdout = [], stderr = [] \<rparr>"
      "''config.yaml''", THEN conjunct1, THEN mp, OF conjI [OF h1 h2]]
  note b = tool_check_first [of no_config_world "\<lparr> returncode = 1, stdout = [], stderr = [] \<rparr>"
      "''config.yaml''", THEN conjunct2, THEN conjunct2, THEN mp, OF h3]
  from h1 h2 h3 a b show ?thesis by blast
qed

text \<open>
  C6. When the tool is there and \<^verbatim>\<open>config.yaml\<close> does not exist, or its text is not
  YAML, \<^verbatim>\<open>main\<close> prints one line and exits with code 1; the events are the tool check,
  the opening of the file and that line, so no fetch is started and no configuration is
  used.
\<close>

theorem config_failure_is_fatal:
  "(run w [''which'', ''skopeo''] = Some result \<and> returncode result = 0
      \<and> open_config w = Inl FileNotFoundError \<longrightarrow>
      main w =
        ([Run [''which'', ''skopeo''], Open ''config.yaml'', Print ''config.yaml file not found.''],
         Inl (SystemExit 1))
      \<and> exit_code (snd (main w)) = 1)
   \<and> (run w [''which'', ''skopeo''] = Some result \<and> returncode result = 0
      \<and> open_config w = Inr text \<and> safe_load w text = Inl (YAMLError m) \<longrightarrow>
      main w =
        ([Run [''which'', ''skopeo''], Open ''config.yaml'',
          Print (''Error parsing YAML file: '' @ m)],
         Inl (SystemExit 1))
      \<and> exit_code (snd (main w)) = 1)"
proof (intro conjI impI)
  assume a: "run w [''which'', ''skopeo''] = Some result \<and> returncode result = 0
      \<and> open_config w = Inl FileNotFoundError"
  then have r: "run w [''which'', ''skopeo''] = Some result" and z: "returncode result = 0"
    and l: "load_config w = Inl FileNotFoundError"
    by (simp_all add: load_config_def)
  show "main w =
        ([Run [''which'', ''skopeo''], Open ''config.yaml'', Print ''config.yaml file not found.''],
         Inl (SystemExit 1))"
    by (simp add: main_found [OF r z] l)
  then show "exit_code (snd (main w)) = 1" by simp
next
  assume a: "run w [''which'', ''skopeo''] = Some result \<and> returncode result = 0
      \<and> open_config w = Inr text \<and> safe_load w text = Inl (YAMLError m)"
  then have r: "run w [''which'', ''skopeo''] = Some result" and z: "returncode result = 0"
    and l: "load_config w = Inl (YAMLError m)"
    by (simp_all add: load_config_def)
  show "main w =
        ([Run [''which'', ''skopeo''], Open ''config.yaml'',
          Print (''Error parsing YAML file: '' @ m)],
         Inl (SystemExit 1))"
    by (simp add: main_found [OF r z] l)
  then show "exit_code (snd (main w)) = 1" by simp
qed

theorem config_failure_is_fatal_witness:
  "run no_config_world [''which'', ''skopeo''] = Some \<lparr> returncode = 0, stdout = [], stderr = [] \<rparr>
   \<and> open_config no_config_world = Inl FileNotFoundError
   \<and> main no_config_world =
        ([Run [''which'', ''skopeo''], Open ''config.yaml'', Print ''config.yaml file not found.''],
         Inl (SystemExit 1))
   \<and> exit_code (snd (main no_config_world)) = 1
   \<and> run bad_config_world [''which'', ''skopeo''] = Some \<lparr> returncode = 0, stdout = [], stderr = [] \<rparr>
   \<and> open_config bad_config_world = Inr ''registries: [''
   \<and> safe_load bad_config_world ''registries: ['' = Inl (YAMLError ''while parsing a flow sequence'')
   \<and> main bad_config_world =
        ([Run [''which'', ''skopeo''], Open ''config.yaml'',
          Print (''Error parsing YAML file: '' @ ''while parsing a flow sequence'')],
         Inl (SystemExit 1))
   \<and> exit_code (snd (main bad_config_world)) = 1"
proof -
  let ?ok = "\<lparr> returncode = 0, stdout = [], stderr = [] \<rparr>"
  have h1: "run no_config_world [''which'', ''skopeo''] = Some ?ok"
    by (simp add: no_config_world_def)
  have h2: "returncode ?ok = 0" by simp
  have h3: "open_config no_config_world = Inl FileNotFoundError"
    by (simp add: no_config_world_def)
  have g1: "run bad_config_world [''which'', ''skopeo''] = Some ?ok"
    by (simp add: bad_config_world_def)
  have g3: "open_config bad_config_world = Inr ''registries: [''"
    by (simp add: bad_config_world_def)
  have g4: "safe_load bad_config_world ''registries: [''
      = Inl (YAMLError ''while parsing a flow sequence'')"
    by (simp add: bad_config_world_def)
  note a = config_failure_is_fatal [of no_config_world ?ok "''registries: [''"
      "''while parsing a flow sequence''", THEN conjunct1, THEN mp,
      OF conjI [OF h1 conjI [OF h2 h3]]]
  note b = config_failure_is_fatal [of bad_config_world ?ok "''registries: [''"
      "''while parsing a flow sequence''", THEN conjunct2, THEN mp,
      OF conjI [OF g1 conjI [OF h2 conjI [OF g3 g4]]]]
  from h1 h3 g1 g3 g4 a b show ?thesis by blast
qed




text \<open>
  C2 fails when \<^verbatim>\<open>Tags\<close> is absent: the tool exits with status zero and its response is
  a mapping without the key \<^verbatim>\<open>Tags\<close>. The subscript raises \<^verbatim>\<open>KeyError\<close>, which
  \<^verbatim>\<open>fetch_tags\<close> does not catch: nothing is printed after the \<^verbatim>\<open>Fetching\<close> line,
  \<^verbatim>\<open>main\<close> ends with exit code 1 and the pair after it is never fetched.
\<close>

theorem absent_tags_abort:
  "run (registry_world absent_b (Inr (PDict [(PStr ''Repository'', PStr ''quay.io/org/b'')])))
       [''skopeo'', ''list-tags'', ''--no-creds'', ''docker://quay.io/org/b''] = Some absent_b
   \<and> returncode absent_b = 0
   \<and> safe_load (registry_world absent_b (Inr (PDict [(PStr ''Repository'', PStr ''quay.io/org/b'')])))
        (stdout absent_b) = Inr (PDict [(PStr ''Repository'', PStr ''quay.io/org/b'')])
   \<and> fetch_tags (registry_world absent_b (Inr (PDict [(PStr ''Repository'', PStr ''quay.io/org/b'')])))
        (PStr ''quay.io'') (PStr ''org/b'') (PInt 3) =
        ([Print ''Fetching tags for org/b from quay.io...'',
          Run [''skopeo'', ''list-tags'', ''--no-creds'', ''docker://quay.io/org/b'']],
         Inl KeyError)
   \<and> main (registry_world absent_b (Inr (PDict [(PStr ''Repository'', PStr ''quay.io/org/b'')]))) =
        ([Run [''which'', ''skopeo''], Open ''config.yaml''] @ listing ''quay.io'' ''org/a''
           @ [Print ''Fetching tags for org/b from quay.io...'',
              Run [''skopeo'', ''list-tags'', ''--no-creds'', ''docker://quay.io/org/b'']],
         Inl KeyError)
   \<and> exit_code (snd (main (registry_world absent_b
          (Inr (PDict [(PStr ''Repository'', PStr ''quay.io/org/b'')]))))) = 1"
proof -
  let ?v = "PDict [(PStr ''Repository'', PStr ''quay.io/org/b'')]"
  let ?w = "registry_world absent_b (Inr ?v)"
  have s: "skopeo_argv ?w (PStr ''quay.io'') (PStr ''org/b'')
      = [''skopeo'', ''list-tags'', ''--no-creds'', ''docker://quay.io/org/b'']"
    by (simp add: skopeo_argv_def)
  have l: "fetching_line ?w (PStr ''quay.io'') (PStr ''org/b'')
      = ''Fetching tags for org/b from quay.io...''"
    by (simp add: fetching_line_def)
  have 1: "run ?w (skopeo_argv ?w (PStr ''quay.io'') (PStr ''org/b'')) = Some absent_b"
    by (rule registry_world_b)
  have 2: "returncode absent_b = 0" by (simp add: absent_b_def)
  have 3: "safe_load ?w (stdout absent_b) = Inr ?v"
    by (simp add: registry_world_def absent_b_def)
  have 4: "subscript ?v ''Tags'' = Inl KeyError" by simp
  have f: "fetch_tags ?w (PStr ''quay.io'') (PStr ''org/b'') (PInt 3) =
        ([Print ''Fetching tags for org/b from quay.io...'',
          Run [''skopeo'', ''list-tags'', ''--no-creds'', ''docker://quay.io/org/b'']],
         Inl KeyError)"
    using fetch_tags_no_key [OF 1 2 3 4, of "PInt 3"] by (simp add: s l)
  have m: "main ?w =
        ([Run [''which'', ''skopeo''], Open ''config.yaml''] @ listing ''quay.io'' ''org/a''
           @ [Print ''Fetching tags for org/b from quay.io...'',
              Run [''skopeo'', ''list-tags'', ''--no-creds'', ''docker://quay.io/org/b'']],
         Inl KeyError)"
    by (simp add: registry_world_main registry_world_a f)
  from m have x: "exit_code (snd (main ?w)) = 1" by simp
  from 1 have r: "run ?w [''skopeo'', ''list-tags'', ''--no-creds'', ''docker://quay.io/org/b'']
      = Some absent_b" by (simp add: s)
  from r 2 3 f m x show ?thesis by blast
qed

text \<open>
  C2 as amended. When the tool exits with status zero and the response is a mapping in
  which \<^verbatim>\<open>Tags\<close> is present and empty (an empty list, \<^verbatim>\<open>null\<close>, any value Python takes
  for false), the fetch prints the \<^verbatim>\<open>No tags found for ... in ...\<close> line, prints no tag
  and returns normally; in a run of \<^verbatim>\<open>main\<close> in which the pairs before it were fetched,
  the loop goes on with the pairs after it.
\<close>

theorem empty_tags_reported:
  "(run w (skopeo_argv w registry img) = Some result \<and> returncode result = 0
      \<and> safe_load w (stdout result) = Inr response \<and> subscript response ''Tags'' = Inr tags
      \<and> \<not> truthy tags \<longrightarrow>
      fetch_tags w registry img max_tags =
        ([Print (fetching_line w registry img), Run (skopeo_argv w registry img),
          Print (''No tags found for '' @ py_str w img @ '' in '' @ py_str w registry @ ''.'')],
         Inr ()))
   \<and> (run w [''which'', ''skopeo''] = Some found \<and> returncode found = 0
        \<and> load_config w = Inr config \<and> dict_get config ''max'' (PInt 3) = Inr max_tags
        \<and> config_pairs config = Some (pre @ (registry, img) # post)
        \<and> (\<forall>(r, i)\<in>set pre. snd (fetch_tags w r i max_tags) = Inr ())
        \<and> run w (skopeo_argv w registry img) = Some result \<and> returncode result = 0
        \<and> safe_load w (stdout result) = Inr response \<and> subscript response ''Tags'' = Inr tags
        \<and> \<not> truthy tags \<longrightarrow>
      main w =
        ([Run [''which'', ''skopeo''], Open ''config.yaml''] @ fst (pair_loop w max_tags pre)
           @ [Print (fetching_line w registry img), Run (skopeo_argv w registry img),
              Print (''No tags found for '' @ py_str w img @ '' in '' @ py_str w registry @ ''.'')]
           @ fst (pair_loop w max_tags post),
         snd (pair_loop w max_tags post)))"
proof -
  have f: "fetch_tags w registry img max_tags =
        ([Print (fetching_line w registry img), Run (skopeo_argv w registry img),
          Print (''No tags found for '' @ py_str w img @ '' in '' @ py_str w registry @ ''.'')],
         Inr ())"
    if "run w (skopeo_argv w registry img) = Some result \<and> returncode result = 0
      \<and> safe_load w (stdout result) = Inr response \<and> subscript response ''Tags'' = Inr tags
      \<and> \<not> truthy tags"
    using that fetch_tags_no_tags [of w registry img result response tags max_tags]
    by (simp add: no_tags_line_def)
  have m: "main w =
        ([Run [''which'', ''skopeo''], Open ''config.yaml''] @ fst (pair_loop w max_tags pre)
           @ [Print (fetching_line w registry img), Run (skopeo_argv w registry img),
              Print (''No tags found for '' @ py_str w img @ '' in '' @ py_str w registry @ ''.'')]
           @ fst (pair_loop w max_tags post),
         snd (pair_loop w max_tags post))"
    if a: "run w [''which'', ''skopeo''] = Some found \<and> returncode found = 0
        \<and> load_config w = Inr config \<and> dict_get config ''max'' (PInt 3) = Inr max_tags
        \<and> config_pairs config = Some (pre @ (registry, img) # post)
        \<and> (\<forall>(r, i)\<in>set pre. snd (fetch_tags w r i max_tags) = Inr ())
        \<and> run w (skopeo_argv w registry img) = Some result \<and> returncode result = 0
        \<and> safe_load w (stdout result) = Inr response \<and> subscript response ''Tags'' = Inr tags
        \<and> \<not> truthy tags"
  proof -
    from a have 1: "run w [''which'', ''skopeo''] = Some found" by simp
    from a have 2: "returncode found = 0" by simp
    from a have 3: "load_config w = Inr config" by simp
    from a have 4: "dict_get config ''max'' (PInt 3) = Inr max_tags" by simp
    from a have 5: "config_pairs config = Some (pre @ (registry, img) # post)" by simp
    from a have 6: "\<forall>(r, i)\<in>set pre. snd (fetch_tags w r i max_tags) = Inr ()" by simp
    from a have 7: "run w (skopeo_argv w registry img) = Some result \<and> returncode result = 0
      \<and> safe_load w (stdout result) = Inr response \<and> subscript response ''Tags'' = Inr tags
      \<and> \<not> truthy tags" by simp
    show ?thesis by (rule main_split [OF 1 2 3 4 5 6 f [OF 7]])
  qed
  from f m show ?thesis by blast
qed

theorem empty_tags_reported_witness:
  "run (registry_world empty_b (Inr (PDict [(PStr ''Tags'', PList [])])))
       [''skopeo'', ''list-tags'', ''--no-creds'', ''docker://quay.io/org/b''] = Some empty_b
   \<and> returncode empty_b = 0
   \<and> safe_load (registry_world empty_b (Inr (PDict [(PStr ''Tags'', PList [])]))) (stdout empty_b)
       = Inr (PDict [(PStr ''Tags'', PList [])])
   \<and> subscript (PDict [(PStr ''Tags'', PList [])]) ''Tags'' = Inr (PList [])
   \<and> \<not> truthy (PList [])
   \<and> fetch_tags (registry_world empty_b (Inr (PDict [(PStr ''Tags'', PList [])])))
        (PStr ''quay.io'') (PStr ''org/b'') (PInt 3) =
        ([Print ''Fetching tags for org/b from quay.io...'',
          Run [''skopeo'', ''list-tags'', ''--no-creds'', ''docker://quay.io/org/b''],
          Print ''No tags found for org/b in quay.io.''], Inr ())
   \<and> main (registry_world empty_b (Inr (PDict [(PStr ''Tags'', PList [])]))) =
        ([Run [''which'', ''skopeo''], Open ''config.yaml''] @ listing ''quay.io'' ''org/a''
           @ [Print ''Fetching tags for org/b from quay.io...'',
              Run [''skopeo'', ''list-tags'', ''--no-creds'', ''docker://quay.io/org/b''],
              Print ''No tags found for org/b in quay.io.'']
           @ listing ''ghcr.io'' ''org/c'',
         Inr ())"
proof -
  let ?v = "PDict [(PStr ''Tags'', PList [])]"
  let ?w = "registry_world empty_b (Inr ?v)"
  let ?ok = "\<lparr> returncode = 0, stdout = ''Tags: [1.2.0, 1.10.0, 1.9.0]'', stderr = [] \<rparr>"
  have s: "skopeo_argv ?w (PStr ''quay.io'') (PStr ''org/b'')
      = [''skopeo'', ''list-tags'', ''--no-creds'', ''docker://quay.io/org/b'']"
    by (simp add: skopeo_argv_def)
  have l: "fetching_line ?w (PStr ''quay.io'') (PStr ''org/b'')
      = ''Fetching tags for org/b from quay.io...''"
    by (simp add: fetching_line_def)
  have 1: "run ?w [''which'', ''skopeo''] = Some ?ok" by (rule registry_world_tool)
  have 2: "returncode ?ok = 0" by simp
  have 3: "load_config ?w = Inr two_registries" by (rule registry_world_config)
  have 6: "\<forall>(r, i)\<in>set [(PStr ''quay.io'', PStr ''org/a'')]. snd (fetch_tags ?w r i (PInt 3)) = Inr ()"
    by (simp add: registry_world_a)
  have 7: "run ?w (skopeo_argv ?w (PStr ''quay.io'') (PStr ''org/b'')) = Some empty_b"
    by (rule registry_world_b)
  have 8: "returncode empty_b = 0" by (simp add: empty_b_def)
  have 9: "safe_load ?w (stdout empty_b) = Inr ?v" by (simp add: registry_world_def empty_b_def)
  have 10: "subscript ?v ''Tags'' = Inr (PList [])" by simp
  have 11: "\<not> truthy (PList [])" by simp
  note h = conjI [OF 7 conjI [OF 8 conjI [OF 9 conjI [OF 10 11]]]]
  note a = empty_tags_reported [of ?w "PStr ''quay.io''" "PStr ''org/b''" empty_b ?v "PList []"
      "PInt 3" ?ok two_registries "[(PStr ''quay.io'', PStr ''org/a'')]"
      "[(PStr ''ghcr.io'', PStr ''org/c'')]"]
  note f = a [THEN conjunct1, THEN mp, OF h]
  note m = a [THEN conjunct2, THEN mp, OF conjI [OF 1 conjI [OF 2 conjI [OF 3
      conjI [OF two_registries_max conjI [OF two_registries_pairs conjI [OF 6 h]]]]]]]
  from f have f': "fetch_tags ?w (PStr ''quay.io'') (PStr ''org/b'') (PInt 3) =
        ([Print ''Fetching tags for org/b from quay.io...'',
          Run [''skopeo'', ''list-tags'', ''--no-creds'', ''docker://quay.io/org/b''],
          Print ''No tags found for org/b in quay.io.''], Inr ())"
    by (simp add: s l)
  from m have m': "main ?w =
        ([Run [''which'', ''skopeo''], Open ''config.yaml''] @ listing ''quay.io'' ''org/a''
           @ [Print ''Fetching tags for org/b from quay.io...'',
              Run [''skopeo'', ''list-tags'', ''--no-creds'', ''docker://quay.io/org/b''],
              Print ''No tags found for org/b in quay.io.'']
           @ listing ''ghcr.io'' ''org/c'',
         Inr ())"
    by (simp add: s l registry_world_a registry_world_c)
  from 7 have r: "run ?w [''skopeo'', ''list-tags'', ''--no-creds'', ''docker://quay.io/org/b'']
      = Some empty_b" by (simp add: s)
  from r 8 9 10 11 f' m' show ?thesis by blast
qed




end
